theory Spec2Isabelle
  imports Complex_Main
begin

section \<open>Client-side image sanitizer: data model\<close>

text \<open>
  The two TypeScript modules re-encode an image through a canvas.  Everything the
  browser decides (whether the file can be read, whether the bytes decode, whether a
  2d context is available, how many bytes an encoding has) is a field of the record
  \<open>browser\<close>; the functions below are the control flow of the source around those
  answers.

  JavaScript numbers are IEEE-754 doubles, and the search of the compressing variant
  depends on it: \<open>0.4 - 0.1\<close> is a double above the double \<open>0.3\<close>, and a rescaled side can
  fall just below an integer.  The model of the code is therefore the one in double
  arithmetic, \<open>shrink64\<close>, \<open>compressImage64\<close>, \<open>initial_dimensions64\<close> and
  \<open>removeExifData64\<close>, where every literal and every arithmetic operation is rounded to
  the nearest double; the properties of the search, of its dimensions and of its
  failures are proved of it.  The definitions \<open>shrink\<close>, \<open>compressImage\<close>,
  \<open>initial_dimensions\<close> and \<open>removeExifData\<close> are the same control flow over \<^typ>\<open>real\<close>, in
  exact arithmetic (\<open>quality - 0.1\<close> is the exact difference, \<open>0.92\<close> the fraction
  \<open>92 / 100\<close>): the idealisation in which the qualities are the decimals 0.92, 0.82, ...
  of the documentation.  It is used where no rounding takes place or where the exact
  values are what is asked for.
\<close>

text \<open>\<open>new Error(message)\<close>; the spec's error kinds are the four messages below.\<close>

datatype error = Error string

definition ReadError :: error where
  "ReadError = Error ''Failed to read file''"

definition DecodeError :: error where
  "DecodeError = Error ''Failed to load image''"

definition SurfaceError :: error where
  "SurfaceError = Error ''Canvas context not available''"

definition EncodeError :: error where
  "EncodeError = Error ''Failed to create blob''"

text \<open>
  A \<open>Blob\<close> as \<open>canvas.toBlob\<close> produces it: its byte size and media type, and what the
  bytes encode, namely a bitmap of \<open>pixel_width \<times> pixel_height\<close> pixels written at
  \<open>encoded_quality\<close>.
\<close>

record Blob =
  blob_size :: nat
  blob_type :: string
  pixel_width :: nat
  pixel_height :: nat
  encoded_quality :: real

text \<open>A \<open>File\<close>: \<open>new File([blob], name, {type})\<close>.  The time stamp is left out.\<close>

record File =
  name :: string
  type :: string
  blob :: Blob

text \<open>What \<open>FileReader.readAsDataURL\<close> ends with: \<open>onerror\<close>, or \<open>onload\<close> with
  \<open>e.target?.result\<close>.\<close>

datatype reader_event = Reader_onerror | Reader_onload "string option"

text \<open>What assigning \<open>img.src\<close> ends with: \<open>onerror\<close>, or \<open>onload\<close> with \<open>img.width\<close> and
  \<open>img.height\<close>.\<close>

datatype image_event = Image_onerror | Image_onload nat nat

text \<open>
  The browser as one call of \<open>removeExifData\<close> sees it.  \<open>getContext n\<close> tells whether the
  \<open>n\<close>-th canvas the call creates gets a 2d context; \<open>toBlob n mimeType w h q\<close> is the
  byte size of the blob that the \<open>n\<close>-th canvas, set to \<open>w \<times> h\<close> and drawn to, encodes
  to at media type \<open>mimeType\<close> and quality \<open>q\<close>, or \<open>None\<close> when the callback receives
  \<open>null\<close>.  \<open>settled_at\<close> is the instant at which the promise of the call settles; only
  \<open>Promise.all\<close> reads it.
\<close>

record browser =
  readAsDataURL :: "File \<Rightarrow> reader_event"
  load_image :: "string \<Rightarrow> image_event"
  getContext :: "nat \<Rightarrow> bool"
  toBlob :: "nat \<Rightarrow> string \<Rightarrow> real \<Rightarrow> real \<Rightarrow> real \<Rightarrow> nat option"
  settled_at :: nat

text \<open>One call of \<open>toBlob\<close> of the compressing variant: the arguments of \<open>compressImage\<close>.\<close>

record attempt =
  at_width :: real
  at_height :: real
  at_quality :: real

definition longer_side :: "attempt \<Rightarrow> real" where
  "longer_side a = max (at_width a) (at_height a)"

text \<open>
  \<open>canvas.width = x\<close> and \<open>canvas.height = x\<close> store an unsigned long limited to
  non-negative numbers: \<open>x\<close> is truncated towards zero and taken modulo \<open>2^32\<close>, and a
  value of \<open>2^31\<close> or more (so every negative integer) makes the canvas fall back to
  its default, 300 for the width and 150 for the height.
\<close>

definition truncate :: "real \<Rightarrow> int" where
  "truncate x = (if 0 \<le> x then \<lfloor>x\<rfloor> else \<lceil>x\<rceil>)"

definition canvas_dimension :: "nat \<Rightarrow> real \<Rightarrow> nat" where
  "canvas_dimension dflt x =
     (if truncate x mod 2 ^ 32 < 2 ^ 31 then nat (truncate x mod 2 ^ 32) else dflt)"

definition canvas_width :: "real \<Rightarrow> nat" where
  "canvas_width x = canvas_dimension 300 x"

definition canvas_height :: "real \<Rightarrow> nat" where
  "canvas_height x = canvas_dimension 150 x"

definition encoded :: "string \<Rightarrow> real \<Rightarrow> real \<Rightarrow> real \<Rightarrow> nat \<Rightarrow> Blob" where
  "encoded mimeType w h q sz =
     \<lparr>blob_size = sz, blob_type = mimeType,
      pixel_width = canvas_width w, pixel_height = canvas_height h, encoded_quality = q\<rparr>"

definition new_File :: "Blob \<Rightarrow> string \<Rightarrow> string \<Rightarrow> File" where
  "new_File b fileName mimeType = \<lparr>name = fileName, type = mimeType, blob = b\<rparr>"

section \<open>The compressing variant\<close>

text \<open>\<open>const mimeType = "image/jpeg"\<close> (line 36).\<close>

definition mimeType :: string where
  "mimeType = ''image/jpeg''"

text \<open>Lines 84 to 90 in exact arithmetic: the dimensions of the attempt after a shrink.\<close>

definition shrink :: "real \<Rightarrow> real \<Rightarrow> real \<times> real" where
  "shrink targetWidth targetHeight =
     (let aspectRatio = targetWidth / targetHeight;
          newWidth = min (targetWidth * 0.8) 800;
          newHeight = newWidth / aspectRatio
      in if newHeight > 800 then (800 * aspectRatio, 800) else (newWidth, newHeight))"

text \<open>Prepends a \<open>toBlob\<close> call to the log of a recursive call.\<close>

definition logged :: "attempt \<Rightarrow> attempt list \<times> 'a \<Rightarrow> attempt list \<times> 'a" where
  "logged a r = (a # fst r, snd r)"

text \<open>
  \<open>compressImage\<close> (lines 39 to 112) in exact arithmetic, with the variables it closes
  over as parameters and the number \<open>n\<close> of canvases created before.  It returns the log
  of its \<open>toBlob\<close> calls, oldest first, and what its promise settles with.
\<close>

function compressImage ::
  "browser \<Rightarrow> real \<Rightarrow> string \<Rightarrow> nat \<Rightarrow> real \<Rightarrow> real \<Rightarrow> real
     \<Rightarrow> attempt list \<times> (error + File)" where
  "compressImage br maxSize fileName n targetWidth targetHeight quality =
     (if \<not> getContext br n then ([], Inl (Error ''Canvas context not available''))
      else
        (case toBlob br n mimeType targetWidth targetHeight quality of
           None \<Rightarrow>
             ([\<lparr>at_width = targetWidth, at_height = targetHeight, at_quality = quality\<rparr>],
              Inl (Error ''Failed to create blob''))
         | Some sz \<Rightarrow>
             if real sz \<le> maxSize then
               ([\<lparr>at_width = targetWidth, at_height = targetHeight, at_quality = quality\<rparr>],
                Inr (new_File (encoded mimeType targetWidth targetHeight quality sz) fileName mimeType))
             else if quality > 0.3 then
               logged \<lparr>at_width = targetWidth, at_height = targetHeight, at_quality = quality\<rparr>
                 (compressImage br maxSize fileName (Suc n) targetWidth targetHeight (quality - 0.1))
             else if targetWidth > 800 \<or> targetHeight > 800 then
               logged \<lparr>at_width = targetWidth, at_height = targetHeight, at_quality = quality\<rparr>
                 (compressImage br maxSize fileName (Suc n)
                    (fst (shrink targetWidth targetHeight)) (snd (shrink targetWidth targetHeight)) 0.7)
             else
               ([\<lparr>at_width = targetWidth, at_height = targetHeight, at_quality = quality\<rparr>],
                Inr (new_File (encoded mimeType targetWidth targetHeight quality sz) fileName mimeType))))"
  by pat_completeness auto

lemma shrink_le_800: "fst (shrink w h) \<le> 800 \<and> snd (shrink w h) \<le> 800"
proof (cases "min (w * 0.8) 800 / (w / h) > 800")
  case False
  then show ?thesis by (simp add: shrink_def Let_def)
next
  case True
  have "w / h \<le> 1"
  proof (rule ccontr)
    assume "\<not> w / h \<le> 1"
    then have a: "1 < w / h" by simp
    have "min (w * 0.8) 800 / (w / h) \<le> 800 / (w / h)"
      by (rule divide_right_mono) (use a in simp_all)
    also have "\<dots> \<le> 800 / 1"
      by (rule divide_left_mono) (use a in simp_all)
    finally show False using True by simp
  qed
  with True show ?thesis by (simp add: shrink_def Let_def)
qed

lemma quality_step:
  "0.3 < (q::real) \<Longrightarrow> nat \<lceil>(q - 0.1 - 0.3) * 10\<rceil> < nat \<lceil>(q - 0.3) * 10\<rceil>"
proof -
  assume "0.3 < q"
  then have "0 < (q - 0.3) * 10" by simp
  then have p: "0 < \<lceil>(q - 0.3) * 10\<rceil>"
    by (simp only: ceiling_less_iff less_ceiling_iff of_int_0)
  have "(q - 0.1 - 0.3) * 10 = (q - 0.3) * 10 - 1" by (simp add: algebra_simps)
  then have "\<lceil>(q - 0.1 - 0.3) * 10\<rceil> = \<lceil>(q - 0.3) * 10\<rceil> - 1"
    by (simp only: ceiling_diff_one)
  with p show ?thesis by linarith
qed

text \<open>
  In exact arithmetic the search ends on every input: a shrink leaves both sides at most
  800, so there is at most one, and between shrinks the quality falls by a tenth until
  it is at most 0.3.
\<close>

termination compressImage
proof (relation "measures
    [\<lambda>(br, maxSize, fileName, n, tw, th, q). if tw > 800 \<or> th > 800 then 1 else (0::nat),
     \<lambda>(br, maxSize, fileName, n, tw, th, q). nat \<lceil>(q - 0.3) * 10\<rceil>]", goal_cases)
  case 1
  show ?case by simp
next
  case (2 br maxSize fileName n targetWidth targetHeight quality sz)
  then show ?case using quality_step [of quality] by simp
next
  case (3 br maxSize fileName n targetWidth targetHeight quality sz)
  then show ?case using shrink_le_800 [of targetWidth targetHeight] by auto
qed

declare compressImage.simps [simp del]

text \<open>Lines 115 to 128 in exact arithmetic: the dimensions of the first attempt.\<close>

definition initial_dimensions :: "real \<Rightarrow> real \<Rightarrow> real \<Rightarrow> real \<times> real" where
  "initial_dimensions width height maxDimension =
     (if width > maxDimension \<or> height > maxDimension then
        (let aspectRatio = width / height
         in if width > height then (maxDimension, maxDimension / aspectRatio)
            else (maxDimension * aspectRatio, maxDimension))
      else (width, height))"

text \<open>
  \<open>removeExifData\<close> of the compressing module (lines 20 to 160): read the file, decode
  it, then search from the initial dimensions at quality 0.92.  An \<open>onload\<close> of the
  reader whose result is \<open>null\<close> or the empty string is falsy and rejects.  The DOM
  calls are taken not to throw, so the \<open>catch\<close> of lines 132 to 138 ("Failed to process
  image") is never entered; the dimensions are those of a decoded image, positive in
  every theorem that needs it (where a side is 0 the source computes \<open>Infinity\<close> or
  \<open>NaN\<close> and HOL computes 0, with the same branches taken).
\<close>

definition removeExifData ::
  "browser \<Rightarrow> File \<Rightarrow> real \<Rightarrow> real \<Rightarrow> attempt list \<times> (error + File)" where
  "removeExifData br file maxSize maxDimension =
     (case readAsDataURL br file of
        Reader_onerror \<Rightarrow> ([], Inl (Error ''Failed to read file''))
      | Reader_onload None \<Rightarrow> ([], Inl (Error ''Failed to read file''))
      | Reader_onload (Some url) \<Rightarrow>
          if url = [] then ([], Inl (Error ''Failed to read file''))
          else
            (case load_image br url of
               Image_onerror \<Rightarrow> ([], Inl (Error ''Failed to load image''))
             | Image_onload w h \<Rightarrow>
                 compressImage br maxSize (name file) 0
                   (fst (initial_dimensions (real w) (real h) maxDimension))
                   (snd (initial_dimensions (real w) (real h) maxDimension)) 0.92))"

subsection \<open>The batch variant\<close>

text \<open>
  \<open>Promise.all\<close> over promises given as the instant each settles at and what it settles
  with.  It rejects with the reason of the promise that rejects first (of two that
  reject at the same instant, the one that comes first in the list) and otherwise
  fulfils with the values in the order of the list.
\<close>

fun first_rejection :: "(nat \<times> (error + 'a)) list \<Rightarrow> (nat \<times> error) option" where
  "first_rejection [] = None"
| "first_rejection ((t, Inr v) # ps) = first_rejection ps"
| "first_rejection ((t, Inl e) # ps) =
     (case first_rejection ps of
        None \<Rightarrow> Some (t, e)
      | Some (t', e') \<Rightarrow> if t' < t then Some (t', e') else Some (t, e))"

fun fulfilled_values :: "(nat \<times> (error + 'a)) list \<Rightarrow> 'a list" where
  "fulfilled_values [] = []"
| "fulfilled_values ((t, Inr v) # ps) = v # fulfilled_values ps"
| "fulfilled_values ((t, Inl e) # ps) = fulfilled_values ps"

definition Promise_all :: "(nat \<times> (error + 'a)) list \<Rightarrow> error + 'a list" where
  "Promise_all ps =
     (case first_rejection ps of
        Some (t, e) \<Rightarrow> Inl e
      | None \<Rightarrow> Inr (fulfilled_values ps))"

text \<open>
  \<open>removeExifDataFromFiles\<close> (lines 169 to 175).  \<open>brs i\<close> is the browser as the call for
  the \<open>i\<close>-th file sees it; \<open>calls\<close> is \<open>files.map((file) => removeExifData(file, maxSize,
  maxDimension))\<close>, each promise with the instant it settles at.
\<close>

definition calls ::
  "(nat \<Rightarrow> browser) \<Rightarrow> File list \<Rightarrow> real \<Rightarrow> real \<Rightarrow> (nat \<times> (error + File)) list" where
  "calls brs files maxSize maxDimension =
     map (\<lambda>(i, file).
            (settled_at (brs i), snd (removeExifData (brs i) file maxSize maxDimension)))
       (enumerate 0 files)"

definition removeExifDataFromFiles ::
  "(nat \<Rightarrow> browser) \<Rightarrow> File list \<Rightarrow> real \<Rightarrow> real \<Rightarrow> error + File list" where
  "removeExifDataFromFiles brs files maxSize maxDimension =
     Promise_all (calls brs files maxSize maxDimension)"

section \<open>The legacy variant (image-utils.ts)\<close>

text \<open>\<open>s.startsWith(p)\<close>.\<close>

definition startsWith :: "string \<Rightarrow> string \<Rightarrow> bool" where
  "startsWith s p = (take (length p) s = p)"

text \<open>\<open>s.split(c)\<close> for a separator of one character: never the empty list.\<close>

fun split_at :: "char \<Rightarrow> string \<Rightarrow> string list" where
  "split_at c [] = [[]]"
| "split_at c (x # xs) =
     (if x = c then [] # split_at c xs
      else (case split_at c xs of
              [] \<Rightarrow> [[x]]
            | p # ps \<Rightarrow> (x # p) # ps))"

text \<open>\<open>xs.pop()\<close>: the last element, \<open>undefined\<close> on the empty array.\<close>

definition pop :: "'a list \<Rightarrow> 'a option" where
  "pop xs = (case rev xs of [] \<Rightarrow> None | x # _ \<Rightarrow> Some x)"

text \<open>\<open>s.toLowerCase()\<close> on the letters \<open>A\<close> to \<open>Z\<close>; every other byte is kept.\<close>

definition lower_char :: "char \<Rightarrow> char" where
  "lower_char c =
     (case map_of (zip ''ABCDEFGHIJKLMNOPQRSTUVWXYZ'' ''abcdefghijklmnopqrstuvwxyz'') c of
        None \<Rightarrow> c
      | Some l \<Rightarrow> l)"

definition toLowerCase :: "string \<Rightarrow> string" where
  "toLowerCase s = map lower_char s"

text \<open>Line 49: \<open>fileName.split(".").pop()?.toLowerCase() || "jpg"\<close>.\<close>

definition fileExtension :: "string \<Rightarrow> string" where
  "fileExtension fileName =
     (case pop (split_at (CHR ''.'') fileName) of
        None \<Rightarrow> ''jpg''
      | Some e \<Rightarrow> if toLowerCase e = [] then ''jpg'' else toLowerCase e)"

text \<open>Lines 52 to 57: the media type the new \<open>File\<close> declares.\<close>

definition declared_mimeType :: "string \<Rightarrow> string" where
  "declared_mimeType fileName =
     (if fileExtension fileName = ''png'' then ''image/png''
      else if fileExtension fileName = ''gif'' then ''image/gif''
      else ''image/jpeg'')"

text \<open>Line 71: the media type \<open>toBlob\<close> is asked to encode to.\<close>

definition encoding_mimeType :: "File \<Rightarrow> string" where
  "encoding_mimeType file =
     (if startsWith (type file) ''image/png'' then ''image/png'' else ''image/jpeg'')"

text \<open>\<open>removeExifData\<close> of image-utils.ts (lines 12 to 102): one canvas of the size of the
  image, one \<open>toBlob\<close>.\<close>

definition removeExifData_legacy :: "browser \<Rightarrow> File \<Rightarrow> real \<Rightarrow> error + File" where
  "removeExifData_legacy br file quality =
     (case readAsDataURL br file of
        Reader_onerror \<Rightarrow> Inl (Error ''Failed to read file'')
      | Reader_onload None \<Rightarrow> Inl (Error ''Failed to read file'')
      | Reader_onload (Some url) \<Rightarrow>
          if url = [] then Inl (Error ''Failed to read file'')
          else
            (case load_image br url of
               Image_onerror \<Rightarrow> Inl (Error ''Failed to load image'')
             | Image_onload w h \<Rightarrow>
                 if \<not> getContext br 0 then Inl (Error ''Canvas context not available'')
                 else
                   (case toBlob br 0 (encoding_mimeType file) (real w) (real h) quality of
                      None \<Rightarrow> Inl (Error ''Failed to create blob'')
                    | Some sz \<Rightarrow>
                        Inr (new_File
                               (encoded (encoding_mimeType file) (real w) (real h) quality sz)
                               (name file) (declared_mimeType (name file))))))"

section \<open>The compressing variant in IEEE-754 double arithmetic\<close>

text \<open>
  The engine computes with doubles, and both the test \<open>quality > 0.3\<close> and the size of a
  canvas are sensitive to it: this section is the compressing variant as the engine
  runs it, with every literal and every arithmetic operation rounded to the nearest
  double.  \<open>maxSize\<close>, \<open>maxDimension\<close> and the image dimensions are taken to be doubles.
\<close>

text \<open>The number of binary digits of \<open>n\<close>.\<close>

fun bit_length :: "nat \<Rightarrow> nat" where
  "bit_length n = (if n = 0 then 0 else bit_length (n div 2) + 1)"

declare bit_length.simps [simp del]

text \<open>For \<open>x > 0\<close>, the \<open>e\<close> with \<open>2^e \<le> x < 2^(e+1)\<close>.\<close>

definition exponent_of :: "real \<Rightarrow> int" where
  "exponent_of x =
     (if 1 \<le> x then int (bit_length (nat \<lfloor>x\<rfloor>)) - 1
      else - int (bit_length (nat \<lceil>1 / x\<rceil> - 1)))"

text \<open>The nearest integer, a tie going to the even one.\<close>

definition round_half_even :: "real \<Rightarrow> int" where
  "round_half_even x =
     (if x - of_int \<lfloor>x\<rfloor> < 1 / 2 then \<lfloor>x\<rfloor>
      else if 1 / 2 < x - of_int \<lfloor>x\<rfloor> then \<lfloor>x\<rfloor> + 1
      else if even \<lfloor>x\<rfloor> then \<lfloor>x\<rfloor> else \<lfloor>x\<rfloor> + 1)"

text \<open>
  The double nearest to \<open>x\<close> (round to nearest, ties to even, 53 significant bits), for
  \<open>x\<close> in the range of normal doubles: what a literal denotes, and what \<open>+\<close>, \<open>-\<close>, \<open>*\<close>
  and \<open>/\<close> return when applied to the exact result.
\<close>

definition binary64 :: "real \<Rightarrow> real" where
  "binary64 x =
     (if x = 0 then 0
      else sgn x * of_int (round_half_even (\<bar>x\<bar> * 2 powi (52 - exponent_of \<bar>x\<bar>))) *
           2 powi (exponent_of \<bar>x\<bar> - 52))"


text \<open>Lines 84 to 90 in double arithmetic.\<close>

definition shrink64 :: "real \<Rightarrow> real \<Rightarrow> real \<times> real" where
  "shrink64 targetWidth targetHeight =
     (let aspectRatio = binary64 (targetWidth / targetHeight);
          newWidth = min (binary64 (targetWidth * binary64 0.8)) 800;
          newHeight = binary64 (newWidth / aspectRatio)
      in if newHeight > 800 then (binary64 (800 * aspectRatio), 800) else (newWidth, newHeight))"

text \<open>
  \<open>compressImage\<close> in double arithmetic.  In doubles \<open>quality - 0.1\<close> need not be smaller
  than \<open>quality\<close>, so the recursion is bounded by \<open>fuel\<close>, one unit for each canvas:
  \<open>None\<close> means that the fuel did not suffice.
\<close>

fun compressImage64 ::
  "nat \<Rightarrow> browser \<Rightarrow> real \<Rightarrow> string \<Rightarrow> nat \<Rightarrow> real \<Rightarrow> real \<Rightarrow> real
     \<Rightarrow> (attempt list \<times> (error + File)) option" where
  "compressImage64 0 br maxSize fileName n targetWidth targetHeight quality = None"
| "compressImage64 (Suc fuel) br maxSize fileName n targetWidth targetHeight quality =
     (if \<not> getContext br n then Some ([], Inl (Error ''Canvas context not available''))
      else
        (case toBlob br n mimeType targetWidth targetHeight quality of
           None \<Rightarrow>
             Some ([\<lparr>at_width = targetWidth, at_height = targetHeight, at_quality = quality\<rparr>],
                   Inl (Error ''Failed to create blob''))
         | Some sz \<Rightarrow>
             if real sz \<le> maxSize then
               Some ([\<lparr>at_width = targetWidth, at_height = targetHeight, at_quality = quality\<rparr>],
                     Inr (new_File (encoded mimeType targetWidth targetHeight quality sz)
                            fileName mimeType))
             else if quality > binary64 0.3 then
               map_option
                 (logged \<lparr>at_width = targetWidth, at_height = targetHeight, at_quality = quality\<rparr>)
                 (compressImage64 fuel br maxSize fileName (Suc n) targetWidth targetHeight
                    (binary64 (quality - binary64 0.1)))
             else if targetWidth > 800 \<or> targetHeight > 800 then
               map_option
                 (logged \<lparr>at_width = targetWidth, at_height = targetHeight, at_quality = quality\<rparr>)
                 (compressImage64 fuel br maxSize fileName (Suc n)
                    (fst (shrink64 targetWidth targetHeight))
                    (snd (shrink64 targetWidth targetHeight)) (binary64 0.7))
             else
               Some ([\<lparr>at_width = targetWidth, at_height = targetHeight, at_quality = quality\<rparr>],
                     Inr (new_File (encoded mimeType targetWidth targetHeight quality sz)
                            fileName mimeType))))"

text \<open>Lines 115 to 128 in double arithmetic.\<close>

definition initial_dimensions64 :: "real \<Rightarrow> real \<Rightarrow> real \<Rightarrow> real \<times> real" where
  "initial_dimensions64 width height maxDimension =
     (if width > maxDimension \<or> height > maxDimension then
        (let aspectRatio = binary64 (width / height)
         in if width > height then (maxDimension, binary64 (maxDimension / aspectRatio))
            else (binary64 (maxDimension * aspectRatio), maxDimension))
      else (width, height))"

text \<open>\<open>removeExifData\<close> of the compressing module in double arithmetic.\<close>

definition removeExifData64 ::
  "nat \<Rightarrow> browser \<Rightarrow> File \<Rightarrow> real \<Rightarrow> real \<Rightarrow> (attempt list \<times> (error + File)) option" where
  "removeExifData64 fuel br file maxSize maxDimension =
     (case readAsDataURL br file of
        Reader_onerror \<Rightarrow> Some ([], Inl (Error ''Failed to read file''))
      | Reader_onload None \<Rightarrow> Some ([], Inl (Error ''Failed to read file''))
      | Reader_onload (Some url) \<Rightarrow>
          if url = [] then Some ([], Inl (Error ''Failed to read file''))
          else
            (case load_image br url of
               Image_onerror \<Rightarrow> Some ([], Inl (Error ''Failed to load image''))
             | Image_onload w h \<Rightarrow>
                 compressImage64 fuel br maxSize (name file) 0
                   (fst (initial_dimensions64 (real w) (real h) maxDimension))
                   (snd (initial_dimensions64 (real w) (real h) maxDimension))
                   (binary64 0.92)))"

section \<open>Rounding tolerance\<close>

text \<open>
  A rounding to the nearest double changes a positive number by a factor between
  \<open>1 / rho\<close> and \<open>rho\<close>, where \<open>rho = 1 + 1 / 2 ^ 53\<close>.  Two positive numbers are \<open>near k\<close> when each is
  at most \<open>rho ^ k\<close> times the other: they differ by at most \<open>k\<close> roundings.  \<open>rho ^ 8\<close> is
  below \<open>1 + 1 / 10 ^ 15\<close>.
\<close>

definition rho :: real where
  "rho = 1 + 1 / 2 ^ 53"

definition near :: "nat \<Rightarrow> real \<Rightarrow> real \<Rightarrow> bool" where
  "near k a b = (a \<le> b * rho ^ k \<and> b \<le> a * rho ^ k)"

section \<open>Example inputs\<close>

text \<open>An attempt whose encoding exists and is larger than the budget.\<close>

definition over_budget :: "browser \<Rightarrow> real \<Rightarrow> nat \<Rightarrow> real \<Rightarrow> real \<Rightarrow> real \<Rightarrow> bool" where
  "over_budget br maxSize n w h q =
     (getContext br n \<and>
      (case toBlob br n mimeType w h q of None \<Rightarrow> False | Some sz \<Rightarrow> \<not> real sz \<le> maxSize))"

text \<open>
  The attempt \<open>a\<close> on canvas \<open>n\<close> is encoded, is larger than the budget, and line 77 or
  line 82 sends the search on to canvas \<open>n + 1\<close>.
\<close>

definition continues :: "browser \<Rightarrow> real \<Rightarrow> nat \<Rightarrow> attempt \<Rightarrow> bool" where
  "continues br maxSize n a =
     (over_budget br maxSize n (at_width a) (at_height a) (at_quality a) \<and>
      (binary64 0.3 < at_quality a \<or> 800 < at_width a \<or> 800 < at_height a))"

text \<open>What the search settles with when it stops at the attempt \<open>a\<close> on canvas \<open>n\<close>: the
  rejection of line 62 or the \<open>File\<close> of lines 68 and 97.\<close>

definition outcome :: "browser \<Rightarrow> string \<Rightarrow> nat \<Rightarrow> attempt \<Rightarrow> error + File" where
  "outcome br fileName n a =
     (case toBlob br n mimeType (at_width a) (at_height a) (at_quality a) of
        None \<Rightarrow> Inl (Error ''Failed to create blob'')
      | Some sz \<Rightarrow>
          Inr (new_File (encoded mimeType (at_width a) (at_height a) (at_quality a) sz)
                 fileName mimeType))"

text \<open>A browser that reads and decodes every file to a \<open>w \<times> h\<close> image and encodes every
  canvas to \<open>sz\<close> bytes.\<close>

definition fixed_browser :: "nat \<Rightarrow> nat \<Rightarrow> nat \<Rightarrow> browser" where
  "fixed_browser w h sz =
     \<lparr>readAsDataURL = (\<lambda>file. Reader_onload (Some ''data:image/jpeg;base64,'')),
      load_image = (\<lambda>url. Image_onload w h),
      getContext = (\<lambda>n. True),
      toBlob = (\<lambda>n t tw th q. Some sz),
      settled_at = 0\<rparr>"

text \<open>A browser whose encoder writes about a byte per pixel at quality 1 and
  proportionally less below.\<close>

definition scaling_browser :: "nat \<Rightarrow> nat \<Rightarrow> browser" where
  "scaling_browser w h =
     \<lparr>readAsDataURL = (\<lambda>file. Reader_onload (Some ''data:image/jpeg;base64,'')),
      load_image = (\<lambda>url. Image_onload w h),
      getContext = (\<lambda>n. True),
      toBlob = (\<lambda>n t tw th q. Some (nat \<lfloor>tw * th * q\<rfloor>)),
      settled_at = 0\<rparr>"

definition photo :: File where
  "photo =
     \<lparr>name = ''photo.jpg'', type = ''image/jpeg'',
      blob = \<lparr>blob_size = 10485760, blob_type = ''image/jpeg'',
              pixel_width = 4000, pixel_height = 4000, encoded_quality = 1\<rparr>\<rparr>"

text \<open>Browsers that fail: the file cannot be read, the bytes do not decode, no canvas
  gets a context.  The first two settle at instant \<open>t\<close>.\<close>

definition unreadable_browser :: "nat \<Rightarrow> browser" where
  "unreadable_browser t = (fixed_browser 0 0 0)\<lparr>readAsDataURL := (\<lambda>file. Reader_onerror), settled_at := t\<rparr>"

definition corrupt_browser :: "nat \<Rightarrow> browser" where
  "corrupt_browser t = (fixed_browser 0 0 0)\<lparr>load_image := (\<lambda>url. Image_onerror), settled_at := t\<rparr>"

definition no_canvas_browser :: browser where
  "no_canvas_browser = (fixed_browser 500 500 51200)\<lparr>getContext := (\<lambda>n. False)\<rparr>"

text \<open>A browser that has a context for the first two canvases only, and encodes every
  canvas to 5,000,000 bytes.\<close>

definition lost_context_browser :: browser where
  "lost_context_browser = (fixed_browser 2000 2000 5000000)\<lparr>getContext := (\<lambda>n. n < 2)\<rparr>"

text \<open>A GIF file.\<close>

definition animation :: File where
  "animation =
     \<lparr>name = ''anim.gif'', type = ''image/gif'',
      blob = \<lparr>blob_size = 40000, blob_type = ''image/gif'',
              pixel_width = 320, pixel_height = 240, encoded_quality = 1\<rparr>\<rparr>"

text \<open>The browsers of two batches: one where every call returns a file, one where the
  second call fails to decode at instant 5 and the third fails to read at instant 3.\<close>

definition good_batch :: "nat \<Rightarrow> browser" where
  "good_batch i = (if i = 0 then fixed_browser 500 500 51200 else scaling_browser 1000 1000)"

definition bad_batch :: "nat \<Rightarrow> browser" where
  "bad_batch i =
     (if i = 0 then fixed_browser 500 500 51200
      else if i = 1 then corrupt_browser 5
      else unreadable_browser 3)"

section \<open>One step of the search\<close>

lemma compressImage_no_context:
  "\<not> getContext br n \<Longrightarrow>
   compressImage br maxSize fileName n w h q = ([], Inl (Error ''Canvas context not available''))"
  by (simp add: compressImage.simps)

lemma compressImage_null_blob:
  "getContext br n \<Longrightarrow> toBlob br n mimeType w h q = None \<Longrightarrow>
   compressImage br maxSize fileName n w h q =
     ([\<lparr>at_width = w, at_height = h, at_quality = q\<rparr>], Inl (Error ''Failed to create blob''))"
  by (simp add: compressImage.simps)

lemma compressImage_accept:
  "getContext br n \<Longrightarrow> toBlob br n mimeType w h q = Some sz \<Longrightarrow> real sz \<le> maxSize \<Longrightarrow>
   compressImage br maxSize fileName n w h q =
     ([\<lparr>at_width = w, at_height = h, at_quality = q\<rparr>],
      Inr (new_File (encoded mimeType w h q sz) fileName mimeType))"
  by (simp add: compressImage.simps)

lemma compressImage_lower_quality:
  "over_budget br maxSize n w h q \<Longrightarrow> 0.3 < q \<Longrightarrow>
   compressImage br maxSize fileName n w h q =
     logged \<lparr>at_width = w, at_height = h, at_quality = q\<rparr>
       (compressImage br maxSize fileName (Suc n) w h (q - 0.1))"
  by (subst compressImage.simps) (simp add: over_budget_def split: option.splits)

lemma compressImage_shrink:
  "over_budget br maxSize n w h q \<Longrightarrow> \<not> 0.3 < q \<Longrightarrow> 800 < w \<or> 800 < h \<Longrightarrow>
   compressImage br maxSize fileName n w h q =
     logged \<lparr>at_width = w, at_height = h, at_quality = q\<rparr>
       (compressImage br maxSize fileName (Suc n) (fst (shrink w h)) (snd (shrink w h)) 0.7)"
  by (subst compressImage.simps) (auto simp add: over_budget_def split: option.splits)

lemma compressImage_floor:
  "over_budget br maxSize n w h q \<Longrightarrow> \<not> 0.3 < q \<Longrightarrow> \<not> (800 < w \<or> 800 < h) \<Longrightarrow>
   compressImage br maxSize fileName n w h q =
     ([\<lparr>at_width = w, at_height = h, at_quality = q\<rparr>],
      Inr (new_File (encoded mimeType w h q (the (toBlob br n mimeType w h q))) fileName mimeType))"
  by (subst compressImage.simps) (auto simp add: over_budget_def split: option.splits)

section \<open>The entry point and the dimensions\<close>

lemma removeExifData_decoded:
  "readAsDataURL br file = Reader_onload (Some url) \<Longrightarrow> url \<noteq> [] \<Longrightarrow>
   load_image br url = Image_onload w h \<Longrightarrow>
   removeExifData br file maxSize maxDimension =
     compressImage br maxSize (name file) 0
       (fst (initial_dimensions (real w) (real h) maxDimension))
       (snd (initial_dimensions (real w) (real h) maxDimension)) 0.92"
  by (simp add: removeExifData_def)

lemma encoded_sel:
  "pixel_width (encoded t w h q sz) = canvas_width w"
  "pixel_height (encoded t w h q sz) = canvas_height h"
  "encoded_quality (encoded t w h q sz) = q"
  "blob_size (encoded t w h q sz) = sz"
  "blob_type (encoded t w h q sz) = t"
  by (simp_all add: encoded_def)

lemmas canvas_simps = canvas_width_def canvas_height_def canvas_dimension_def truncate_def

lemma canvas_dimension_floor:
  assumes "0 \<le> x" "x < 2 ^ 31"
  shows "canvas_dimension dflt x = nat \<lfloor>x\<rfloor>"
proof -
  have f: "0 \<le> \<lfloor>x\<rfloor>" "\<lfloor>x\<rfloor> < 2 ^ 31" using assms by (simp_all add: floor_less_iff)
  then have "\<lfloor>x\<rfloor> mod 2 ^ 32 = \<lfloor>x\<rfloor>" by simp
  with f assms(1) show ?thesis by (simp add: canvas_dimension_def truncate_def)
qed

lemma canvas_dimension_le:
  assumes "0 \<le> x" "x \<le> m" "dflt \<le> 2 ^ 31"
  shows "real (canvas_dimension dflt x) \<le> m"
proof -
  have t: "truncate x = \<lfloor>x\<rfloor>" "0 \<le> \<lfloor>x\<rfloor>" using assms(1) by (simp_all add: truncate_def)
  have "\<lfloor>x\<rfloor> mod 2 ^ 32 \<le> \<lfloor>x\<rfloor>" using t(2) by (rule zmod_le_nonneg_dividend)
  then have u: "real_of_int (\<lfloor>x\<rfloor> mod 2 ^ 32) \<le> m" using assms(2) by linarith
  show ?thesis
  proof (cases "\<lfloor>x\<rfloor> mod 2 ^ 32 < 2 ^ 31")
    case True
    have "0 \<le> \<lfloor>x\<rfloor> mod 2 ^ 32" by simp
    then have "real (nat (\<lfloor>x\<rfloor> mod 2 ^ 32)) = real_of_int (\<lfloor>x\<rfloor> mod 2 ^ 32)" by simp
    with True u show ?thesis by (simp add: canvas_dimension_def t(1))
  next
    case False
    then have "(2::int) ^ 31 \<le> \<lfloor>x\<rfloor> mod 2 ^ 32" by simp
    then have "(2::real) ^ 31 \<le> real_of_int (\<lfloor>x\<rfloor> mod 2 ^ 32)"
      by (metis of_int_le_iff of_int_numeral of_int_power)
    with u have "(2::real) ^ 31 \<le> m" by linarith
    moreover have "real dflt \<le> 2 ^ 31" using assms(3)
      by (metis of_nat_le_iff of_nat_numeral of_nat_power)
    ultimately have "real dflt \<le> m" by linarith
    with False show ?thesis by (simp add: canvas_dimension_def t(1))
  qed
qed

lemma canvas_le:
  assumes "0 \<le> x" "x \<le> m"
  shows "real (canvas_width x) \<le> m" and "real (canvas_height x) \<le> m"
  unfolding canvas_width_def canvas_height_def
  by (rule canvas_dimension_le [OF assms], simp)+

lemma shrink_aspect:
  assumes "0 < w" "0 < h"
  shows "fst (shrink w h) * h = snd (shrink w h) * w"
  using assms by (simp add: shrink_def Let_def)

lemma shrink_pos:
  assumes "0 < w" "0 < h"
  shows "0 < fst (shrink w h) \<and> 0 < snd (shrink w h)"
  using assms by (simp add: shrink_def Let_def)

lemma shrink_width_le:
  assumes "0 < w" "0 < h"
  shows "fst (shrink w h) \<le> w"
proof (cases "min (w * 0.8) 800 / (w / h) > 800")
  case False
  have "min (w * 0.8) 800 \<le> w * 0.8" by simp
  also have "\<dots> \<le> w" using assms by simp
  finally show ?thesis using False by (simp add: shrink_def Let_def)
next
  case True
  then have "800 < min (w * 0.8) 800 * h / w" by simp
  then have "800 * w < min (w * 0.8) 800 * h" using assms by (simp add: pos_less_divide_eq)
  also have "\<dots> \<le> (w * 0.8) * h" using assms by (simp add: mult_right_mono)
  finally have "800 < 0.8 * h" using assms by simp
  then have "800 * w \<le> w * h" using assms by simp
  then have "800 * w / h \<le> w" using assms by (simp add: pos_divide_le_eq)
  with True show ?thesis by (simp add: shrink_def Let_def)
qed

lemma shrink_height_le:
  assumes "0 < w" "0 < h"
  shows "snd (shrink w h) \<le> h"
proof -
  have "snd (shrink w h) * w = fst (shrink w h) * h" using shrink_aspect [OF assms] by simp
  also have "\<dots> \<le> w * h" using shrink_width_le [OF assms] assms by (simp add: mult_right_mono)
  finally have "snd (shrink w h) * w \<le> h * w" by (simp add: mult.commute)
  then show ?thesis using assms by (simp only: mult_le_cancel_right_pos)
qed

lemma shrink_longer_side:
  assumes "0 < w" "0 < h" "800 < w \<or> 800 < h"
  shows "max (fst (shrink w h)) (snd (shrink w h)) = min (0.8 * max w h) 800"
proof (cases "min (w * 0.8) 800 / (w / h) > 800")
  case True
  then have "800 < min (w * 0.8) 800 * h / w" by simp
  then have a: "800 * w < min (w * 0.8) 800 * h" using assms by (simp add: pos_less_divide_eq)
  also have "\<dots> \<le> (w * 0.8) * h" using assms by (simp add: mult_right_mono)
  finally have h: "800 < 0.8 * h" using assms by simp
  have "min (w * 0.8) 800 * h \<le> 800 * h"
    by (rule mult_right_mono) (use assms in simp_all)
  with a have "800 * w < 800 * h" by linarith
  then have wh: "w < h" by simp
  then have "800 * w / h \<le> 800" using assms by (simp add: pos_divide_le_eq)
  moreover have "min (0.8 * max w h) 800 = 800" using h wh by simp
  ultimately show ?thesis using True by (simp add: shrink_def Let_def)
next
  case False
  then have le: "min (w * 0.8) 800 * h / w \<le> 800" by simp
  have sh: "shrink w h = (min (w * 0.8) 800, min (w * 0.8) 800 * h / w)"
    using False by (simp add: shrink_def Let_def)
  show ?thesis
  proof (cases "h \<le> w")
    case True
    define m where "m = min (w * 0.8) 800"
    have "0 \<le> m" unfolding m_def using assms by simp
    then have "m * h \<le> m * w" using True by (rule mult_left_mono [rotated])
    then have "m * h / w \<le> m" using assms by (simp add: pos_divide_le_eq)
    then have "max m (m * h / w) = m" by simp
    moreover have "min (0.8 * max w h) 800 = m" unfolding m_def using True by (simp add: max_def mult.commute)
    ultimately show ?thesis unfolding sh m_def by simp
  next
    case hw: False
    then have "w < h" by simp
    have m: "min (w * 0.8) 800 * h / w = min (0.8 * h) (800 * h / w)"
      using assms by (simp add: min_def field_simps)
    have "800 < 800 * h / w" using \<open>w < h\<close> assms by (simp add: pos_less_divide_eq)
    with le m have eq: "min (w * 0.8) 800 * h / w = 0.8 * h" "0.8 * h \<le> 800"
      by (simp_all add: min_def split: if_splits)
    have "min (w * 0.8) 800 \<le> 0.8 * h" using \<open>w < h\<close> by simp
    then show ?thesis using \<open>w < h\<close> eq unfolding sh by (simp add: max_def min_def)
  qed
qed

lemma aspect_trans:
  fixes a b w h w' h' :: real
  assumes "a * h' = b * w'" "w' * h = h' * w" "0 < h'"
  shows "a * h = b * w"
proof -
  have "a * h * h' = (a * h') * h" by (simp add: mult_ac)
  also have "\<dots> = b * (w' * h)" using assms(1) by (simp add: mult_ac)
  also have "\<dots> = b * w * h'" using assms(2) by (simp add: mult_ac)
  finally show ?thesis using assms(3) by simp
qed

lemma initial_dimensions_facts:
  fixes w h maxDimension :: real
  assumes "0 < w" "0 < h" "0 < maxDimension"
  shows "0 < fst (initial_dimensions w h maxDimension)"
    "0 < snd (initial_dimensions w h maxDimension)"
    "fst (initial_dimensions w h maxDimension) * h = snd (initial_dimensions w h maxDimension) * w"
    "max (fst (initial_dimensions w h maxDimension)) (snd (initial_dimensions w h maxDimension))
       = min (max w h) maxDimension"
proof -
  show "0 < fst (initial_dimensions w h maxDimension)"
    using assms by (simp add: initial_dimensions_def Let_def)
  show "0 < snd (initial_dimensions w h maxDimension)"
    using assms by (simp add: initial_dimensions_def Let_def)
  show "fst (initial_dimensions w h maxDimension) * h = snd (initial_dimensions w h maxDimension) * w"
    using assms by (simp add: initial_dimensions_def Let_def)
  show "max (fst (initial_dimensions w h maxDimension)) (snd (initial_dimensions w h maxDimension))
       = min (max w h) maxDimension"
  proof (cases "w > maxDimension \<or> h > maxDimension")
    case False
    then show ?thesis by (simp add: initial_dimensions_def)
  next
    case big: True
    show ?thesis
    proof (cases "w > h")
      case True
      then have "maxDimension * h \<le> maxDimension * w" using assms by simp
      then have "maxDimension * h / w \<le> maxDimension" using assms by (simp add: pos_divide_le_eq)
      then show ?thesis using big True by (auto simp add: initial_dimensions_def Let_def)
    next
      case False
      then have "maxDimension * w \<le> maxDimension * h" using assms by simp
      then have "maxDimension * w / h \<le> maxDimension" using assms by (simp add: pos_divide_le_eq)
      then show ?thesis using big False by (auto simp add: initial_dimensions_def Let_def)
    qed
  qed
qed

text \<open>The definitions a concrete run unfolds.\<close>

lemmas eval_simps = removeExifData_def scaling_browser_def fixed_browser_def
  initial_dimensions_def compressImage.simps shrink_def logged_def mimeType_def new_File_def
  encoded_def canvas_simps photo_def Let_def

section \<open>Acceptance on the first attempt\<close>

text \<open>
  Claim C7.  When the first encoding, made at quality 0.92 and at the initial
  dimensions (the dimensions of the image itself when both are within
  \<open>maxDimension\<close>), has at most \<open>maxSize\<close> bytes, \<open>removeExifData\<close> returns that
  encoding: the log holds this one attempt, so no quality decrement and no shrink
  takes place.
\<close>

theorem first_attempt_accepted:
  assumes "readAsDataURL br file = Reader_onload (Some url)" "url \<noteq> []"
    and "load_image br url = Image_onload w h"
    and "tw = fst (initial_dimensions (real w) (real h) maxDimension)"
    and "th = snd (initial_dimensions (real w) (real h) maxDimension)"
    and "getContext br 0" "toBlob br 0 mimeType tw th 0.92 = Some sz" "real sz \<le> maxSize"
  shows "removeExifData br file maxSize maxDimension =
      ([\<lparr>at_width = tw, at_height = th, at_quality = 0.92\<rparr>],
       Inr \<lparr>name = name file, type = ''image/jpeg'',
            blob = \<lparr>blob_size = sz, blob_type = ''image/jpeg'',
                    pixel_width = canvas_width tw, pixel_height = canvas_height th,
                    encoded_quality = 0.92\<rparr>\<rparr>) \<and>
    (real w \<le> maxDimension \<and> real h \<le> maxDimension \<longrightarrow> tw = real w \<and> th = real h)"
proof -
  have "removeExifData br file maxSize maxDimension =
      compressImage br maxSize (name file) 0 tw th 0.92"
    unfolding assms(4,5) using assms(1,2,3) by (rule removeExifData_decoded)
  also have "\<dots> = ([\<lparr>at_width = tw, at_height = th, at_quality = 0.92\<rparr>],
      Inr (new_File (encoded mimeType tw th 0.92 sz) (name file) mimeType))"
    using assms(6,7,8) by (rule compressImage_accept)
  finally have "removeExifData br file maxSize maxDimension =
      ([\<lparr>at_width = tw, at_height = th, at_quality = 0.92\<rparr>],
       Inr \<lparr>name = name file, type = ''image/jpeg'',
            blob = \<lparr>blob_size = sz, blob_type = ''image/jpeg'',
                    pixel_width = canvas_width tw, pixel_height = canvas_height th,
                    encoded_quality = 0.92\<rparr>\<rparr>)"
    by (simp add: new_File_def encoded_def mimeType_def)
  moreover have "real w \<le> maxDimension \<and> real h \<le> maxDimension \<longrightarrow> tw = real w \<and> th = real h"
    unfolding assms(4,5) by (simp add: initial_dimensions_def)
  ultimately show ?thesis by simp
qed

theorem first_attempt_accepted_witness:
  "removeExifData (fixed_browser 500 500 51200) photo 4194304 1920 =
      ([\<lparr>at_width = 500, at_height = 500, at_quality = 0.92\<rparr>],
       Inr \<lparr>name = ''photo.jpg'', type = ''image/jpeg'',
            blob = \<lparr>blob_size = 51200, blob_type = ''image/jpeg'',
                    pixel_width = 500, pixel_height = 500, encoded_quality = 0.92\<rparr>\<rparr>)"
proof -
  have "removeExifData (fixed_browser 500 500 51200) photo 4194304 1920 =
      ([\<lparr>at_width = 500, at_height = 500, at_quality = 0.92\<rparr>],
       Inr \<lparr>name = name photo, type = ''image/jpeg'',
            blob = \<lparr>blob_size = 51200, blob_type = ''image/jpeg'',
                    pixel_width = canvas_width 500, pixel_height = canvas_height 500,
                    encoded_quality = 0.92\<rparr>\<rparr>) \<and>
    (real 500 \<le> (1920::real) \<and> real 500 \<le> (1920::real) \<longrightarrow> (500::real) = real 500 \<and> (500::real) = real 500)"
    by (rule first_attempt_accepted [where url = "''data:image/jpeg;base64,''"])
       (simp_all add: fixed_browser_def initial_dimensions_def)
  then show ?thesis by (simp add: photo_def canvas_simps)
qed

section \<open>The adversarial image\<close>

text \<open>
  In exact arithmetic: for a 4000 \<times> 4000 image and the default budget of 4 MB and bound
  of 1920 pixels, when every encoding is larger than the budget, the search makes 13
  attempts and returns a file of 800 \<times> 800 pixels, encoded at quality 0.3, that is larger
  than the budget.
\<close>

lemma adversarial_4000x4000_exact_arithmetic:
  assumes "readAsDataURL br file = Reader_onload (Some url)" "url \<noteq> []"
    and "load_image br url = Image_onload 4000 4000"
    and "\<forall>n. getContext br n"
    and "\<forall>n w h q. \<exists>sz. toBlob br n mimeType w h q = Some sz \<and> 4 * 1024 * 1024 < real sz"
  shows "\<exists>f. snd (removeExifData br file (4 * 1024 * 1024) 1920) = Inr f \<and>
    pixel_width (blob f) = 800 \<and> pixel_height (blob f) = 800 \<and>
    encoded_quality (blob f) = 0.3 \<and> 4 * 1024 * 1024 < real (blob_size (blob f)) \<and>
    length (fst (removeExifData br file (4 * 1024 * 1024) 1920)) = 13"
proof -
  have ob: "over_budget br 4194304 n w h q" for n w h q
  proof -
    from assms(5) obtain sz where "toBlob br n mimeType w h q = Some sz" "4 * 1024 * 1024 < real sz"
      by blast
    with assms(4) show ?thesis by (simp add: over_budget_def)
  qed
  obtain sz where sz: "toBlob br 12 mimeType 800 800 0.3 = Some sz" "4 * 1024 * 1024 < real sz"
    using assms(5) by blast
  have "removeExifData br file 4194304 1920 =
      compressImage br 4194304 (name file) 0
       (fst (initial_dimensions (real 4000) (real 4000) 1920))
       (snd (initial_dimensions (real 4000) (real 4000) 1920)) 0.92"
    using assms(1,2,3) by (rule removeExifData_decoded)
  also have "\<dots> = compressImage br 4194304 (name file) 0 1920 1920 0.92"
    by (simp add: initial_dimensions_def)
  also have "\<dots> =
      (map (\<lambda>q. \<lparr>at_width = 1920, at_height = 1920, at_quality = q\<rparr>)
         [0.92, 0.82, 0.72, 0.62, 0.52, 0.42, 0.32, 0.22] @
       map (\<lambda>q. \<lparr>at_width = 800, at_height = 800, at_quality = q\<rparr>) [0.7, 0.6, 0.5, 0.4, 0.3],
       Inr (new_File (encoded mimeType 800 800 0.3 (the (toBlob br 12 mimeType 800 800 0.3)))
              (name file) mimeType))"
    by (simp add: compressImage_lower_quality compressImage_shrink compressImage_floor ob
        shrink_def logged_def Let_def eval_nat_numeral)
  finally have "removeExifData br file (4 * 1024 * 1024) 1920 =
      (map (\<lambda>q. \<lparr>at_width = 1920, at_height = 1920, at_quality = q\<rparr>)
         [0.92, 0.82, 0.72, 0.62, 0.52, 0.42, 0.32, 0.22] @
       map (\<lambda>q. \<lparr>at_width = 800, at_height = 800, at_quality = q\<rparr>) [0.7, 0.6, 0.5, 0.4, 0.3],
       Inr (new_File (encoded mimeType 800 800 0.3 sz) (name file) mimeType))"
    using sz(1) by simp
  then show ?thesis using sz(2)
    by (simp add: new_File_def encoded_def canvas_simps)
qed

lemma adversarial_4000x4000_exact_arithmetic_example:
  "snd (removeExifData (fixed_browser 4000 4000 5000000) photo (4 * 1024 * 1024) 1920) =
     Inr \<lparr>name = ''photo.jpg'', type = ''image/jpeg'',
       blob = \<lparr>blob_size = 5000000, blob_type = ''image/jpeg'', pixel_width = 800,
         pixel_height = 800, encoded_quality = 0.3\<rparr>\<rparr> \<and>
   length (fst (removeExifData (fixed_browser 4000 4000 5000000) photo (4 * 1024 * 1024) 1920)) = 13"
proof -
  have "\<exists>f. snd (removeExifData (fixed_browser 4000 4000 5000000) photo (4 * 1024 * 1024) 1920) = Inr f \<and>
    pixel_width (blob f) = 800 \<and> pixel_height (blob f) = 800 \<and>
    encoded_quality (blob f) = 0.3 \<and> 4 * 1024 * 1024 < real (blob_size (blob f)) \<and>
    length (fst (removeExifData (fixed_browser 4000 4000 5000000) photo (4 * 1024 * 1024) 1920)) = 13"
    by (rule adversarial_4000x4000_exact_arithmetic [where url = "''data:image/jpeg;base64,''"])
       (simp_all add: fixed_browser_def)
  then have "length (fst (removeExifData (fixed_browser 4000 4000 5000000) photo (4 * 1024 * 1024) 1920)) = 13"
    by blast
  moreover have "snd (removeExifData (fixed_browser 4000 4000 5000000) photo (4 * 1024 * 1024) 1920) =
     Inr \<lparr>name = ''photo.jpg'', type = ''image/jpeg'',
       blob = \<lparr>blob_size = 5000000, blob_type = ''image/jpeg'', pixel_width = 800,
         pixel_height = 800, encoded_quality = 0.3\<rparr>\<rparr>"
    by (simp add: eval_simps)
  ultimately show ?thesis by simp
qed

section \<open>The search in double arithmetic\<close>

lemmas binary64_simps = binary64_def round_half_even_def exponent_of_def bit_length.simps

lemma binary64_literals:
  "binary64 0.1 = 3602879701896397 / 36028797018963968"
  "binary64 0.3 = 5404319552844595 / 18014398509481984"
  "binary64 0.7 = 3152519739159347 / 4503599627370496"
  "binary64 0.92 = 8286623314361713 / 9007199254740992"
  "binary64 0.8 = 3602879701896397 / 4503599627370496"
  by (simp_all add: binary64_simps)

lemma dimensions64_4000:
  "initial_dimensions64 4000 4000 1920 = (1920, 1920)"
  "shrink64 1920 1920 = (800, 800)"
  by (simp_all add: initial_dimensions64_def shrink64_def Let_def binary64_simps)

lemma compressImage64_unfold:
  "0 < fuel \<Longrightarrow>
   compressImage64 fuel br maxSize fileName n targetWidth targetHeight quality =
     (if \<not> getContext br n then Some ([], Inl (Error ''Canvas context not available''))
      else
        (case toBlob br n mimeType targetWidth targetHeight quality of
           None \<Rightarrow>
             Some ([\<lparr>at_width = targetWidth, at_height = targetHeight, at_quality = quality\<rparr>],
                   Inl (Error ''Failed to create blob''))
         | Some sz \<Rightarrow>
             if real sz \<le> maxSize then
               Some ([\<lparr>at_width = targetWidth, at_height = targetHeight, at_quality = quality\<rparr>],
                     Inr (new_File (encoded mimeType targetWidth targetHeight quality sz)
                            fileName mimeType))
             else if quality > binary64 0.3 then
               map_option
                 (logged \<lparr>at_width = targetWidth, at_height = targetHeight, at_quality = quality\<rparr>)
                 (compressImage64 (fuel - 1) br maxSize fileName (Suc n) targetWidth targetHeight
                    (binary64 (quality - binary64 0.1)))
             else if targetWidth > 800 \<or> targetHeight > 800 then
               map_option
                 (logged \<lparr>at_width = targetWidth, at_height = targetHeight, at_quality = quality\<rparr>)
                 (compressImage64 (fuel - 1) br maxSize fileName (Suc n)
                    (fst (shrink64 targetWidth targetHeight))
                    (snd (shrink64 targetWidth targetHeight)) (binary64 0.7))
             else
               Some ([\<lparr>at_width = targetWidth, at_height = targetHeight, at_quality = quality\<rparr>],
                     Inr (new_File (encoded mimeType targetWidth targetHeight quality sz)
                            fileName mimeType))))"
  by (cases fuel) (simp_all split: option.splits)

lemma compressImage64_lower_quality:
  "over_budget br maxSize n w h q \<Longrightarrow> binary64 0.3 < q \<Longrightarrow> 0 < fuel \<Longrightarrow>
   compressImage64 fuel br maxSize fileName n w h q =
     map_option (logged \<lparr>at_width = w, at_height = h, at_quality = q\<rparr>)
       (compressImage64 (fuel - 1) br maxSize fileName (n + 1) w h (binary64 (q - binary64 0.1)))"
  by (subst compressImage64_unfold) (auto simp add: over_budget_def split: option.splits)

lemma compressImage64_shrink:
  "over_budget br maxSize n w h q \<Longrightarrow> \<not> binary64 0.3 < q \<Longrightarrow> 800 < w \<or> 800 < h \<Longrightarrow>
   0 < fuel \<Longrightarrow>
   compressImage64 fuel br maxSize fileName n w h q =
     map_option (logged \<lparr>at_width = w, at_height = h, at_quality = q\<rparr>)
       (compressImage64 (fuel - 1) br maxSize fileName (n + 1)
          (fst (shrink64 w h)) (snd (shrink64 w h)) (binary64 0.7))"
  by (subst compressImage64_unfold) (auto simp add: over_budget_def split: option.splits)

lemma compressImage64_floor:
  "over_budget br maxSize n w h q \<Longrightarrow> \<not> binary64 0.3 < q \<Longrightarrow> \<not> (800 < w \<or> 800 < h) \<Longrightarrow>
   0 < fuel \<Longrightarrow>
   compressImage64 fuel br maxSize fileName n w h q =
     Some ([\<lparr>at_width = w, at_height = h, at_quality = q\<rparr>],
       Inr (new_File (encoded mimeType w h q (the (toBlob br n mimeType w h q))) fileName mimeType))"
  by (subst compressImage64_unfold) (auto simp add: over_budget_def split: option.splits)

lemma binary64_literals_normal:
  "binary64 (1 / 10) = 3602879701896397 / 36028797018963968"
  "binary64 (3 / 10) = 5404319552844595 / 18014398509481984"
  "binary64 (7 / 10) = 3152519739159347 / 4503599627370496"
  "binary64 (23 / 25) = 8286623314361713 / 9007199254740992"
  "binary64 (4 / 5) = 3602879701896397 / 4503599627370496"
  by (simp_all add: binary64_simps)

lemma compressImage64_stop:
  "\<not> continues br maxSize n \<lparr>at_width = w, at_height = h, at_quality = q\<rparr> \<Longrightarrow> 0 < fuel \<Longrightarrow>
   compressImage64 fuel br maxSize fileName n w h q =
     Some (if \<not> getContext br n then ([], Inl (Error ''Canvas context not available''))
      else ([\<lparr>at_width = w, at_height = h, at_quality = q\<rparr>],
            outcome br fileName n \<lparr>at_width = w, at_height = h, at_quality = q\<rparr>))"
  by (subst compressImage64_unfold)
    (auto simp add: continues_def outcome_def over_budget_def split: option.splits)

lemma compressImage64_cases [case_names stop lower shrink]:
  assumes "\<not> continues br maxSize n \<lparr>at_width = w, at_height = h, at_quality = q\<rparr> \<Longrightarrow> P"
    and "over_budget br maxSize n w h q \<Longrightarrow> binary64 0.3 < q \<Longrightarrow> P"
    and "over_budget br maxSize n w h q \<Longrightarrow> \<not> binary64 0.3 < q \<Longrightarrow> 800 < w \<or> 800 < h \<Longrightarrow> P"
  shows P
  using assms unfolding continues_def by auto

lemma compressImage64_fuel_mono:
  "compressImage64 fuel br maxSize fileName n w h q = Some r \<Longrightarrow>
   compressImage64 (fuel + k) br maxSize fileName n w h q = Some r"
proof (induction fuel arbitrary: n w h q r)
  case 0
  then show ?case by simp
next
  case (Suc fuel)
  have a: "0 < Suc fuel + k" by simp
  have b: "Suc fuel + k - 1 = fuel + k" "Suc fuel - 1 = fuel" by simp_all
  show ?case
  proof (cases rule: compressImage64_cases [of br maxSize n w h q])
    case stop
    show ?thesis
      using Suc(2)
      unfolding compressImage64_stop [OF stop zero_less_Suc] compressImage64_stop [OF stop a] .
  next
    case lower
    from Suc(2) obtain r' where
      r': "compressImage64 fuel br maxSize fileName (n + 1) w h (binary64 (q - binary64 0.1)) = Some r'"
      "r = logged \<lparr>at_width = w, at_height = h, at_quality = q\<rparr> r'"
      unfolding compressImage64_lower_quality [OF lower zero_less_Suc] b by auto
    show ?thesis
      unfolding compressImage64_lower_quality [OF lower a] b Suc.IH [OF r'(1)] r'(2) by simp
  next
    case shrink
    from Suc(2) obtain r' where
      r': "compressImage64 fuel br maxSize fileName (n + 1) (fst (shrink64 w h)) (snd (shrink64 w h))
        (binary64 0.7) = Some r'"
      "r = logged \<lparr>at_width = w, at_height = h, at_quality = q\<rparr> r'"
      unfolding compressImage64_shrink [OF shrink zero_less_Suc] b by auto
    show ?thesis
      unfolding compressImage64_shrink [OF shrink a] b Suc.IH [OF r'(1)] r'(2) by simp
  qed
qed

text \<open>The shape of every result of the search.\<close>

lemma compressImage64_result:
  "compressImage64 fuel br maxSize fileName n w h q = Some (tr, r) \<Longrightarrow>
   (tr = [] \<and> \<not> getContext br n \<and> r = Inl (Error ''Canvas context not available'')) \<or>
   (\<exists>tr0 a. tr = tr0 @ [a] \<and> getContext br (n + length tr0) \<and>
      (\<not> continues br maxSize (n + length tr0) a \<and> r = outcome br fileName (n + length tr0) a \<or>
       continues br maxSize (n + length tr0) a \<and> \<not> getContext br (Suc (n + length tr0)) \<and>
         r = Inl (Error ''Canvas context not available'')))"
proof (induction fuel arbitrary: n w h q tr r)
  case 0
  then show ?case by simp
next
  case (Suc fuel)
  have b: "Suc fuel - 1 = fuel" by simp
  let ?a = "\<lparr>at_width = w, at_height = h, at_quality = q\<rparr>"
  have step: ?case
    if c: "continues br maxSize n ?a"
      and r': "compressImage64 fuel br maxSize fileName (n + 1) w' h' q' = Some (tr', r')"
      and tr: "tr = ?a # tr'" "r = r'"
    for w' h' q' tr' r'
  proof -
    from c have g: "getContext br n" by (simp add: continues_def over_budget_def)
    from Suc.IH [OF r'] show ?thesis
    proof (elim disjE conjE exE)
      assume "tr' = []" "\<not> getContext br (n + 1)" "r' = Inl (Error ''Canvas context not available'')"
      with c g tr have "tr = [] @ [?a] \<and> getContext br (n + length ([]::attempt list)) \<and>
        continues br maxSize (n + length ([]::attempt list)) ?a \<and>
        \<not> getContext br (Suc (n + length ([]::attempt list))) \<and>
        r = Inl (Error ''Canvas context not available'')"
        by simp
      then show ?thesis by blast
    next
      fix tr0 a
      assume "tr' = tr0 @ [a]" "getContext br (n + 1 + length tr0)"
        "\<not> continues br maxSize (n + 1 + length tr0) a" "r' = outcome br fileName (n + 1 + length tr0) a"
      with tr have "tr = (?a # tr0) @ [a] \<and> getContext br (n + length (?a # tr0)) \<and>
        \<not> continues br maxSize (n + length (?a # tr0)) a \<and>
        r = outcome br fileName (n + length (?a # tr0)) a"
        by simp
      then show ?thesis by blast
    next
      fix tr0 a
      assume "tr' = tr0 @ [a]" "getContext br (n + 1 + length tr0)"
        "continues br maxSize (n + 1 + length tr0) a" "\<not> getContext br (Suc (n + 1 + length tr0))"
        "r' = Inl (Error ''Canvas context not available'')"
      with tr have "tr = (?a # tr0) @ [a] \<and> getContext br (n + length (?a # tr0)) \<and>
        continues br maxSize (n + length (?a # tr0)) a \<and>
        \<not> getContext br (Suc (n + length (?a # tr0))) \<and>
        r = Inl (Error ''Canvas context not available'')"
        by simp
      then show ?thesis by blast
    qed
  qed
  show ?case
  proof (cases rule: compressImage64_cases [of br maxSize n w h q])
    case stop
    from Suc(2) have "(tr, r) = (if \<not> getContext br n then ([], Inl (Error ''Canvas context not available''))
      else ([?a], outcome br fileName n ?a))"
      unfolding compressImage64_stop [OF stop zero_less_Suc] by simp
    then have "tr = [] \<and> \<not> getContext br n \<and> r = Inl (Error ''Canvas context not available'') \<or>
      tr = [] @ [?a] \<and> getContext br (n + length ([]::attempt list)) \<and>
        \<not> continues br maxSize (n + length ([]::attempt list)) ?a \<and>
        r = outcome br fileName (n + length ([]::attempt list)) ?a"
      using stop by (simp split: if_splits)
    then show ?thesis by blast
  next
    case lower
    from Suc(2) obtain tr' r' where
      r': "compressImage64 fuel br maxSize fileName (n + 1) w h (binary64 (q - binary64 0.1)) =
        Some (tr', r')" "tr = ?a # tr'" "r = r'"
      unfolding compressImage64_lower_quality [OF lower zero_less_Suc] b
      by (auto simp add: logged_def)
    from lower have "continues br maxSize n ?a" by (simp add: continues_def)
    then show ?thesis using r' by (rule step)
  next
    case shrink
    from Suc(2) obtain tr' r' where
      r': "compressImage64 fuel br maxSize fileName (n + 1) (fst (shrink64 w h)) (snd (shrink64 w h))
        (binary64 0.7) = Some (tr', r')" "tr = ?a # tr'" "r = r'"
      unfolding compressImage64_shrink [OF shrink zero_less_Suc] b
      by (auto simp add: logged_def)
    from shrink have "continues br maxSize n ?a" by (simp add: continues_def)
    then show ?thesis using r' by (rule step)
  qed
qed


subsection \<open>Rounding never crosses a double\<close>

text \<open>
  \<open>exponent_of\<close> finds the binade, and rounding \<open>x\<close> cannot exceed a bound \<open>c\<close> that is
  itself on the grid of the binade of \<open>x\<close>: in particular a quotient or product that is
  at most 800 rounds to at most 800.
\<close>

lemma bit_length_bounds:
  "0 < n \<Longrightarrow> 2 ^ (bit_length n - 1) \<le> n \<and> n < 2 ^ bit_length n"
proof (induction n rule: bit_length.induct)
  case (1 n)
  show ?case
  proof (cases "n div 2 = 0")
    case True
    with 1(2) have "n = 1" by auto
    then show ?thesis by (simp add: bit_length.simps)
  next
    case False
    then have pos: "0 < n div 2" by simp
    define b where "b = bit_length (n div 2)"
    from 1(1) [OF _ pos] 1(2) have ih: "2 ^ (b - 1) \<le> n div 2" "n div 2 < 2 ^ b"
      unfolding b_def by simp_all
    have b: "0 < b" unfolding b_def using pos by (subst bit_length.simps) simp
    have bl: "bit_length n = b + 1" unfolding b_def using 1(2) by (subst bit_length.simps) simp
    have "(2::nat) ^ b = 2 * 2 ^ (b - 1)" using b by (cases b) simp_all
    also have "\<dots> \<le> 2 * (n div 2)" using ih(1) by simp
    also have "\<dots> \<le> n" by simp
    finally have lo: "2 ^ b \<le> n" .
    have "n < 2 * (n div 2) + 2" by presburger
    also have "\<dots> \<le> 2 * 2 ^ b" using ih(2) by simp
    finally have hi: "n < 2 ^ (b + 1)" by simp
    from lo hi show ?thesis unfolding bl by simp
  qed
qed

lemma exponent_of_le:
  assumes "0 < x"
  shows "2 powi (exponent_of x) \<le> x"
proof (cases "1 \<le> x")
  case True
  define n where "n = nat \<lfloor>x\<rfloor>"
  have n: "0 < n" "real n \<le> x" unfolding n_def using True by (simp_all add: le_floor_iff)
  then have "0 < bit_length n" by (subst bit_length.simps) simp
  then have e: "exponent_of x = int (bit_length n - 1)"
    unfolding exponent_of_def n_def [symmetric] using True by simp
  have "(2::real) powi (exponent_of x) = 2 ^ (bit_length n - 1)"
    unfolding e by (simp only: power_int_of_nat)
  also have "\<dots> = real (2 ^ (bit_length n - 1))" by simp
  also have "\<dots> \<le> real n" using bit_length_bounds [OF n(1)] by (simp only: of_nat_le_iff)
  finally show ?thesis using n(2) by simp
next
  case False
  then have x1: "x < 1" by simp
  define c where "c = nat \<lceil>1 / x\<rceil>"
  have "1 < 1 / x" using assms x1 by simp
  then have c2: "2 \<le> c" unfolding c_def by linarith
  have cx: "1 / x \<le> real c" unfolding c_def using assms by (simp add: le_of_int_ceiling)
  define k where "k = bit_length (c - 1)"
  have e: "exponent_of x = - int k" unfolding exponent_of_def k_def c_def using False by simp
  have "c - 1 < 2 ^ k" unfolding k_def using bit_length_bounds [of "c - 1"] c2 by simp
  then have "c \<le> 2 ^ k" by simp
  then have "real c \<le> 2 ^ k" by (metis of_nat_le_iff of_nat_numeral of_nat_power)
  with cx have "1 / x \<le> 2 ^ k" by (rule order_trans)
  then have "1 \<le> 2 ^ k * x" using assms by (simp add: pos_divide_le_eq)
  then have "1 / 2 ^ k \<le> x" by (simp add: pos_divide_le_eq mult.commute)
  moreover have "(2::real) powi (- int k) = 1 / 2 ^ k"
    by (simp add: power_int_minus divide_inverse)
  ultimately show ?thesis unfolding e by simp
qed

lemma round_half_even_le: "x \<le> of_int N \<Longrightarrow> round_half_even x \<le> N"
proof -
  assume le: "x \<le> of_int N"
  then have f: "\<lfloor>x\<rfloor> \<le> N" by (simp add: floor_le_iff)
  show ?thesis
  proof (cases "x - of_int \<lfloor>x\<rfloor> < 1 / 2")
    case True
    with f show ?thesis by (simp add: round_half_even_def)
  next
    case False
    then have "of_int \<lfloor>x\<rfloor> < x" by simp
    with le have "of_int \<lfloor>x\<rfloor> < (of_int N :: real)" by simp
    then have "\<lfloor>x\<rfloor> < N" by simp
    then show ?thesis by (simp add: round_half_even_def)
  qed
qed

lemma round_half_even_nonneg: "0 \<le> x \<Longrightarrow> 0 \<le> round_half_even x"
  by (simp add: round_half_even_def)


lemma binary64_le:
  assumes "x \<le> c" and c: "c = of_int k * 2 powi j" and "0 < c" and "c < 2 powi (j + 53)"
  shows "binary64 x \<le> c"
proof (cases "0 < x")
  case False
  show ?thesis
  proof (cases "x = 0")
    case True
    with assms(3) show ?thesis by (simp add: binary64_def)
  next
    case False
    with \<open>\<not> 0 < x\<close> have neg: "x < 0" by simp
    define m where "m = round_half_even (\<bar>x\<bar> * 2 powi (52 - exponent_of \<bar>x\<bar>))"
    have "0 \<le> m" unfolding m_def by (rule round_half_even_nonneg) simp
    then have "0 \<le> of_int m * (2::real) powi (exponent_of \<bar>x\<bar> - 52)" by simp
    moreover have "binary64 x = - (of_int m * 2 powi (exponent_of \<bar>x\<bar> - 52))"
      using neg unfolding m_def by (simp add: binary64_def)
    ultimately have "binary64 x \<le> 0" by simp
    with assms(3) show ?thesis by simp
  qed
next
  case True
  define e where "e = exponent_of x"
  have "2 powi e \<le> x" unfolding e_def using True by (rule exponent_of_le)
  with assms(1,4) have "(2::real) powi e < 2 powi (j + 53)" by simp
  then have "e < j + 53"
    using power_int_increasing [of "j + 53" e "2::real"] by (cases "e < j + 53") simp_all
  then have d: "0 \<le> j + 52 - e" by simp
  define N where "N = k * 2 ^ nat (j + 52 - e)"
  have "(2::real) powi (j + (52 - e)) = 2 ^ nat (j + 52 - e)"
    using d by (simp add: power_int_def)
  then have N: "of_int N = c * 2 powi (52 - e)"
    unfolding N_def c by (simp add: power_int_add)
  have "x * 2 powi (52 - e) \<le> c * 2 powi (52 - e)"
    using assms(1) by (simp add: mult_right_mono)
  then have "round_half_even (x * 2 powi (52 - e)) \<le> N"
    unfolding N [symmetric] by (rule round_half_even_le)
  then have "of_int (round_half_even (x * 2 powi (52 - e))) * (2::real) powi (e - 52)
      \<le> of_int N * 2 powi (e - 52)"
    by (simp add: mult_right_mono)
  also have "\<dots> = c * (2 powi (52 - e) * 2 powi (e - 52))" unfolding N by simp
  also have "2 powi (52 - e) * (2::real) powi (e - 52) = 1"
    by (simp add: power_int_add [symmetric])
  finally have "of_int (round_half_even (x * 2 powi (52 - e))) * (2::real) powi (e - 52) \<le> c"
    by simp
  moreover have "binary64 x = of_int (round_half_even (x * 2 powi (52 - e))) * 2 powi (e - 52)"
    using True unfolding e_def by (simp add: binary64_def)
  ultimately show ?thesis by simp
qed

lemma binary64_le_800: "x \<le> 800 \<Longrightarrow> binary64 x \<le> 800"
  by (rule binary64_le [where k = 25 and j = 5]) simp_all

lemma binary64_le_grid:
  assumes "x \<le> real k / 1024" "0 < k" "k \<le> 2048"
  shows "binary64 x \<le> real k / 1024"
proof (rule binary64_le [where k = "int k" and j = "-10"])
  show "x \<le> real k / 1024" by (rule assms(1))
  show "real k / 1024 = of_int (int k) * 2 powi (- 10)" by (simp add: power_int_minus)
  show "0 < real k / 1024" using assms(2) by simp
  have "real k / 1024 \<le> 2" using assms(3) by simp
  also have "(2::real) < 2 powi (- 10 + 53)" by simp
  finally show "real k / 1024 < 2 powi (- 10 + 53)" .
qed

subsection \<open>The error of a rounding\<close>

lemma rho_ge_1: "1 \<le> rho" by (simp add: rho_def)

lemma rho_pow_ge_1: "1 \<le> rho ^ k" using rho_ge_1 by (rule one_le_power)

lemma rho_pow_pos: "0 < rho ^ k" using rho_pow_ge_1 [of k] by linarith

lemma rho_pow_mono: "k \<le> l \<Longrightarrow> rho ^ k \<le> rho ^ l"
  using rho_ge_1 by (rule power_increasing [rotated])

lemma near_refl: "0 \<le> a \<Longrightarrow> near k a a"
proof -
  assume "0 \<le> a"
  then have "a * 1 \<le> a * rho ^ k" using rho_pow_ge_1 [of k] by (rule mult_left_mono [rotated])
  then show ?thesis by (simp add: near_def)
qed

lemma near_sym: "near k a b \<Longrightarrow> near k b a"
  by (simp add: near_def)

lemma near_mono:
  assumes "near k a b" "k \<le> l" "0 \<le> a" "0 \<le> b"
  shows "near l a b"
proof -
  have r: "rho ^ k \<le> rho ^ l" using assms(2) by (rule rho_pow_mono)
  have "b * rho ^ k \<le> b * rho ^ l" using r assms(4) by (rule mult_left_mono)
  moreover have "a * rho ^ k \<le> a * rho ^ l" using r assms(3) by (rule mult_left_mono)
  ultimately show ?thesis using assms(1) unfolding near_def by linarith
qed

lemma near_trans:
  assumes "near k a b" "near l b c" "k + l = n"
  shows "near n a c"
proof -
  have "a \<le> b * rho ^ k" using assms(1) by (simp add: near_def)
  also have "\<dots> \<le> (c * rho ^ l) * rho ^ k"
    using assms(2) rho_pow_pos [of k] by (simp add: near_def)
  finally have 1: "a \<le> c * rho ^ (k + l)" by (simp add: power_add mult_ac)
  have "c \<le> b * rho ^ l" using assms(2) by (simp add: near_def)
  also have "\<dots> \<le> (a * rho ^ k) * rho ^ l"
    using assms(1) rho_pow_pos [of l] by (simp add: near_def)
  finally have 2: "c \<le> a * rho ^ (k + l)" by (simp add: power_add mult_ac)
  from 1 2 show ?thesis unfolding assms(3) [symmetric] by (simp add: near_def)
qed

lemma near_mult:
  assumes "near k a b" "near l c d" "k + l = n" "0 \<le> a" "0 \<le> b" "0 \<le> c" "0 \<le> d"
  shows "near n (a * c) (b * d)"
proof -
  have bk: "0 \<le> b * rho ^ k" "0 \<le> a * rho ^ k"
    using assms(4,5) rho_pow_pos [of k] by simp_all
  have "a * c \<le> (b * rho ^ k) * (d * rho ^ l)"
    using assms(1,2,4,6) unfolding near_def by (intro mult_mono) (use bk in simp_all)
  then have 1: "a * c \<le> b * d * rho ^ (k + l)" by (simp add: power_add mult_ac)
  have "b * d \<le> (a * rho ^ k) * (c * rho ^ l)"
    using assms(1,2,5,7) unfolding near_def by (intro mult_mono) (use bk in simp_all)
  then have 2: "b * d \<le> a * c * rho ^ (k + l)" by (simp add: power_add mult_ac)
  from 1 2 show ?thesis unfolding assms(3) [symmetric] by (simp add: near_def)
qed

lemma near_inverse:
  assumes "near k a b" "0 < a" "0 < b"
  shows "near k (1 / a) (1 / b)"
proof -
  have p: "0 < rho ^ k" by (rule rho_pow_pos)
  from assms(1) have "b \<le> a * rho ^ k" by (simp add: near_def)
  then have 1: "1 / a \<le> 1 / b * rho ^ k"
    using assms(2,3) p by (simp add: field_simps)
  from assms(1) have "a \<le> b * rho ^ k" by (simp add: near_def)
  then have 2: "1 / b \<le> 1 / a * rho ^ k"
    using assms(2,3) p by (simp add: field_simps)
  from 1 2 show ?thesis by (simp add: near_def)
qed

lemma near_divide:
  assumes "near k a b" "near l c d" "k + l = n" "0 \<le> a" "0 \<le> b" "0 < c" "0 < d"
  shows "near n (a / c) (b / d)"
proof -
  have "near l (1 / c) (1 / d)" using assms(2,6,7) by (rule near_inverse)
  with assms(1) have "near n (a * (1 / c)) (b * (1 / d))"
    by (rule near_mult) (use assms in simp_all)
  then show ?thesis by simp
qed

lemma near_min:
  assumes "near k a b" "near k c d"
  shows "near k (min a c) (min b d)"
proof -
  have p: "0 < rho ^ k" by (rule rho_pow_pos)
  have 1: "min b d * rho ^ k = min (b * rho ^ k) (d * rho ^ k)"
    using p by (simp add: min_def)
  have 2: "min a c * rho ^ k = min (a * rho ^ k) (c * rho ^ k)"
    using p by (simp add: min_def)
  show ?thesis unfolding near_def 1 2 using assms unfolding near_def by auto
qed

lemma near_max:
  assumes "near k a b" "near k c d"
  shows "near k (max a c) (max b d)"
proof -
  have p: "0 < rho ^ k" by (rule rho_pow_pos)
  have 1: "max b d * rho ^ k = max (b * rho ^ k) (d * rho ^ k)"
    using p by (simp add: max_def)
  have 2: "max a c * rho ^ k = max (a * rho ^ k) (c * rho ^ k)"
    using p by (simp add: max_def)
  show ?thesis unfolding near_def 1 2 using assms unfolding near_def by auto
qed

lemma round_half_even_near: "\<bar>of_int (round_half_even y) - y\<bar> \<le> 1 / 2"
proof -
  have "of_int \<lfloor>y\<rfloor> \<le> y" "y < of_int \<lfloor>y\<rfloor> + 1" by linarith+
  then show ?thesis by (auto simp add: round_half_even_def)
qed

lemma round_half_even_ge: "of_int N \<le> y \<Longrightarrow> N \<le> round_half_even y"
proof -
  assume "of_int N \<le> y"
  then have "N \<le> \<lfloor>y\<rfloor>" by (simp add: le_floor_iff)
  then show ?thesis by (simp add: round_half_even_def)
qed

lemma binary64_near:
  assumes "0 < x"
  shows "near 1 (binary64 x) x" and "2 powi exponent_of x \<le> binary64 x"
proof -
  define e where "e = exponent_of x"
  define y where "y = x * 2 powi (52 - e)"
  define r where "r = round_half_even y"
  define s :: real where "s = 2 powi (e - 52)"
  have s: "0 < s" unfolding s_def by simp
  have b: "binary64 x = of_int r * s"
    using assms unfolding r_def y_def s_def e_def by (simp add: binary64_def)
  have "2 powi (52 - e) * s = (1::real)"
    unfolding s_def by (simp add: power_int_add [symmetric])
  then have x: "x = y * s" unfolding y_def by (simp add: mult.assoc)
  have "2 powi e \<le> x" unfolding e_def using assms by (rule exponent_of_le)
  then have "2 powi e * 2 powi (52 - e) \<le> y"
    unfolding y_def by (rule mult_right_mono) simp
  moreover have "2 powi e * 2 powi (52 - e) = (2::real) ^ 52"
    by (simp add: power_int_add [symmetric])
  ultimately have y: "2 ^ 52 \<le> y" by simp
  then have "of_int (2 ^ 52) \<le> y" by simp
  then have "2 ^ 52 \<le> r" unfolding r_def by (rule round_half_even_ge)
  then have r: "(2::real) ^ 52 \<le> of_int r"
    by (metis of_int_le_iff of_int_numeral of_int_power)
  have d: "\<bar>of_int r - y\<bar> \<le> 1 / 2" unfolding r_def by (rule round_half_even_near)
  have "of_int r \<le> y + 1 / 2" using d by linarith
  also have "\<dots> \<le> y + y / 2 ^ 53" using y by simp
  also have "\<dots> = y * rho" by (simp add: rho_def algebra_simps)
  finally have "of_int r * s \<le> (y * rho) * s" using s by (simp add: mult_right_mono)
  also have "\<dots> = (y * s) * rho ^ 1" by (simp add: mult_ac)
  finally have 1: "binary64 x \<le> x * rho ^ 1" unfolding b x [symmetric] .
  have "y \<le> of_int r + 1 / 2" using d by linarith
  also have "\<dots> \<le> of_int r + of_int r / 2 ^ 53" using r by simp
  also have "\<dots> = of_int r * rho" by (simp add: rho_def algebra_simps)
  finally have "y * s \<le> (of_int r * rho) * s" using s by (simp add: mult_right_mono)
  also have "\<dots> = (of_int r * s) * rho ^ 1" by (simp add: mult_ac)
  finally have 2: "x \<le> binary64 x * rho ^ 1" unfolding b x [symmetric] .
  from 1 2 show "near 1 (binary64 x) x" by (simp add: near_def)
  have "(2::real) powi 52 * 2 powi (e - 52) = 2 powi (52 + (e - 52))"
    by (rule power_int_add [symmetric]) simp
  also have "52 + (e - 52) = e" by simp
  finally have "(2::real) powi 52 * 2 powi (e - 52) = 2 powi e" .
  moreover have "(2::real) powi 52 = 2 ^ 52" by simp
  ultimately have "2 powi e = 2 ^ 52 * s" unfolding s_def by simp
  also have "\<dots> \<le> of_int r * s" using r s by (simp add: mult_right_mono)
  finally show "2 powi exponent_of x \<le> binary64 x" unfolding b e_def .
qed

lemma binary64_pos: "0 < x \<Longrightarrow> 0 < binary64 x"
proof -
  assume "0 < x"
  then have "2 powi exponent_of x \<le> binary64 x" by (rule binary64_near)
  moreover have "(0::real) < 2 powi exponent_of x" by simp
  ultimately show ?thesis by linarith
qed

lemma binary64_ge_1: "1 \<le> x \<Longrightarrow> 1 \<le> binary64 x"
proof -
  assume x: "1 \<le> x"
  then have "0 < x" by simp
  then have b: "2 powi exponent_of x \<le> binary64 x" by (rule binary64_near)
  have "0 \<le> exponent_of x"
  proof -
    have "0 < nat \<lfloor>x\<rfloor>" using x by (simp add: le_floor_iff)
    then have "0 < bit_length (nat \<lfloor>x\<rfloor>)" by (subst bit_length.simps) simp
    then show ?thesis using x by (simp add: exponent_of_def)
  qed
  then have "(2::real) powi 0 \<le> 2 powi exponent_of x" by (intro power_int_increasing) simp_all
  with b show ?thesis by simp
qed

lemma binary64_le_1: "x \<le> 1 \<Longrightarrow> binary64 x \<le> 1"
  by (rule binary64_le [where k = 1 and j = 0]) simp_all

lemma rho_bound: "rho ^ 8 < 1 + 1 / 10 ^ 15"
  by (simp add: rho_def power_divide)

lemma near_le_scaled:
  assumes "0 \<le> a"
  shows "a \<le> a * rho ^ k"
proof -
  have "a * 1 \<le> a * rho ^ k" using rho_pow_ge_1 [of k] assms by (rule mult_left_mono)
  then show ?thesis by simp
qed

subsection \<open>The search ends in double arithmetic\<close>

text \<open>
  A shrink leaves both sides at most 800 in double arithmetic too.  The double 0.1 is at
  least \<open>102 / 1024\<close>, so a quality of at most \<open>(307 + 102 i) / 1024\<close> is, after \<open>i\<close>
  decrements, at most \<open>307 / 1024\<close>, which is below the double 0.3.  Hence from every
  state with a quality of at most 1 the search ends, and from the entry point, where
  the quality is the double 0.92, fuel for 14 canvases always suffices, for every
  browser and all dimensions.  A file it returns fits the budget or is an encoding of
  at most 800 \<times> 800 pixels at a quality of at most the double 0.3.
\<close>

lemma shrink64_le_800: "fst (shrink64 w h) \<le> 800 \<and> snd (shrink64 w h) \<le> 800"
proof -
  define a where "a = binary64 (w / h)"
  define nw where "nw = min (binary64 (w * binary64 0.8)) 800"
  have nw: "nw \<le> 800" unfolding nw_def by simp
  show ?thesis
  proof (cases "binary64 (nw / a) > 800")
    case False
    then show ?thesis using nw unfolding a_def nw_def by (simp add: shrink64_def Let_def)
  next
    case True
    have "a \<le> 1"
    proof (rule ccontr)
      assume "\<not> a \<le> 1"
      then have a: "1 < a" by simp
      have "nw / a \<le> 800 / a" by (rule divide_right_mono) (use nw a in simp_all)
      also have "\<dots> \<le> 800 / 1" by (rule divide_left_mono) (use a in simp_all)
      finally have "nw / a \<le> 800" by simp
      then have "binary64 (nw / a) \<le> 800" by (rule binary64_le_800)
      with True show False by simp
    qed
    then have "800 * a \<le> 800" by simp
    then have "binary64 (800 * a) \<le> 800" by (rule binary64_le_800)
    with True show ?thesis unfolding a_def nw_def by (simp add: shrink64_def Let_def)
  qed
qed

lemma quality_step64:
  assumes "q \<le> (307 + 102 * real (Suc i)) / 1024" "Suc i \<le> 8"
  shows "binary64 (q - binary64 0.1) \<le> (307 + 102 * real i) / 1024"
proof -
  have "102 / 1024 \<le> binary64 0.1" by (simp add: binary64_literals)
  with assms(1) have "q - binary64 0.1 \<le> (307 + 102 * real (Suc i)) / 1024 - 102 / 1024"
    by linarith
  also have "\<dots> = real (307 + 102 * i) / 1024" by simp
  finally have "binary64 (q - binary64 0.1) \<le> real (307 + 102 * i) / 1024"
    by (rule binary64_le_grid) (use assms(2) in simp_all)
  then show ?thesis by simp
qed

lemma quality_floor64: "q \<le> (307 + 102 * real 0) / 1024 \<Longrightarrow> \<not> binary64 0.3 < q"
  by (simp add: binary64_literals)

lemma compressImage64_small_terminates:
  "q \<le> (307 + 102 * real i) / 1024 \<Longrightarrow> i \<le> 8 \<Longrightarrow> i < fuel \<Longrightarrow> w \<le> 800 \<Longrightarrow> h \<le> 800 \<Longrightarrow>
   \<exists>tr r. compressImage64 fuel br maxSize fileName n w h q = Some (tr, r) \<and> length tr \<le> i + 1"
proof (induction i arbitrary: q fuel n)
  case 0
  then have "\<not> binary64 0.3 < q" by (simp add: quality_floor64)
  with 0 show ?case
    by (subst compressImage64_unfold) (auto split: option.splits)
next
  case (Suc i)
  show ?case
  proof (cases "over_budget br maxSize n w h q \<and> binary64 0.3 < q")
    case False
    with Suc(4,5,6) show ?thesis
      by (subst compressImage64_unfold) (auto simp add: over_budget_def split: option.splits)
  next
    case True
    have "binary64 (q - binary64 0.1) \<le> (307 + 102 * real i) / 1024"
      using Suc(2,3) by (rule quality_step64)
    moreover have "i \<le> 8" "i < fuel - 1" using Suc(3,4) by simp_all
    ultimately have "\<exists>tr r. compressImage64 (fuel - 1) br maxSize fileName (n + 1) w h
        (binary64 (q - binary64 0.1)) = Some (tr, r) \<and> length tr \<le> i + 1"
      using Suc(5,6) by (rule Suc.IH)
    then obtain tr r where "compressImage64 (fuel - 1) br maxSize fileName (n + 1) w h
        (binary64 (q - binary64 0.1)) = Some (tr, r)" "length tr \<le> i + 1"
      by blast
    moreover have "compressImage64 fuel br maxSize fileName n w h q =
        map_option (logged \<lparr>at_width = w, at_height = h, at_quality = q\<rparr>)
          (compressImage64 (fuel - 1) br maxSize fileName (n + 1) w h (binary64 (q - binary64 0.1)))"
      using True Suc(4) by (intro compressImage64_lower_quality) simp_all
    ultimately show ?thesis by (simp add: logged_def)
  qed
qed

lemma quality_07: "binary64 0.7 \<le> (307 + 102 * real 5) / 1024"
  by (simp add: binary64_literals)

lemma compressImage64_terminates:
  "q \<le> (307 + 102 * real i) / 1024 \<Longrightarrow> i \<le> 8 \<Longrightarrow> i + 6 < fuel \<Longrightarrow>
   \<exists>tr r. compressImage64 fuel br maxSize fileName n w h q = Some (tr, r) \<and> length tr \<le> i + 7"
proof (induction i arbitrary: q fuel n)
  case 0
  then have nq: "\<not> binary64 0.3 < q" by (simp add: quality_floor64)
  show ?case
  proof (cases "over_budget br maxSize n w h q \<and> (800 < w \<or> 800 < h)")
    case False
    with 0 nq show ?thesis
      by (subst compressImage64_unfold) (auto simp add: over_budget_def split: option.splits)
  next
    case True
    have "(5::nat) \<le> 8" "5 < fuel - 1" "fst (shrink64 w h) \<le> 800" "snd (shrink64 w h) \<le> 800"
      using 0(3) shrink64_le_800 [of w h] by simp_all
    with quality_07 have "\<exists>tr r. compressImage64 (fuel - 1) br maxSize fileName (n + 1)
        (fst (shrink64 w h)) (snd (shrink64 w h)) (binary64 0.7) = Some (tr, r) \<and>
        length tr \<le> 5 + 1"
      by (rule compressImage64_small_terminates)
    then obtain tr r where "compressImage64 (fuel - 1) br maxSize fileName (n + 1)
        (fst (shrink64 w h)) (snd (shrink64 w h)) (binary64 0.7) = Some (tr, r)" "length tr \<le> 5 + 1"
      by blast
    moreover have "compressImage64 fuel br maxSize fileName n w h q =
        map_option (logged \<lparr>at_width = w, at_height = h, at_quality = q\<rparr>)
          (compressImage64 (fuel - 1) br maxSize fileName (n + 1)
             (fst (shrink64 w h)) (snd (shrink64 w h)) (binary64 0.7))"
      using True nq 0(3) by (intro compressImage64_shrink) simp_all
    ultimately show ?thesis by (simp add: logged_def)
  qed
next
  case (Suc i)
  show ?case
  proof (cases "over_budget br maxSize n w h q")
    case False
    with Suc(4) show ?thesis
      by (subst compressImage64_unfold) (auto simp add: over_budget_def split: option.splits)
  next
    case ob: True
    show ?thesis
    proof (cases "binary64 0.3 < q")
      case True
      have "binary64 (q - binary64 0.1) \<le> (307 + 102 * real i) / 1024"
        using Suc(2,3) by (rule quality_step64)
      moreover have "i \<le> 8" "i + 6 < fuel - 1" using Suc(3,4) by simp_all
      ultimately have "\<exists>tr r. compressImage64 (fuel - 1) br maxSize fileName (n + 1) w h
          (binary64 (q - binary64 0.1)) = Some (tr, r) \<and> length tr \<le> i + 7"
        by (rule Suc.IH)
      then obtain tr r where "compressImage64 (fuel - 1) br maxSize fileName (n + 1) w h
          (binary64 (q - binary64 0.1)) = Some (tr, r)" "length tr \<le> i + 7"
        by blast
      moreover have "compressImage64 fuel br maxSize fileName n w h q =
          map_option (logged \<lparr>at_width = w, at_height = h, at_quality = q\<rparr>)
            (compressImage64 (fuel - 1) br maxSize fileName (n + 1) w h (binary64 (q - binary64 0.1)))"
        using ob True Suc(4) by (intro compressImage64_lower_quality) simp_all
      ultimately show ?thesis by (simp add: logged_def)
    next
      case nq: False
      show ?thesis
      proof (cases "800 < w \<or> 800 < h")
        case False
        with ob nq Suc(4) show ?thesis
          by (subst compressImage64_unfold) (auto simp add: over_budget_def split: option.splits)
      next
        case True
        have "(5::nat) \<le> 8" "5 < fuel - 1" "fst (shrink64 w h) \<le> 800"
          "snd (shrink64 w h) \<le> 800"
          using Suc(4) shrink64_le_800 [of w h] by simp_all
        with quality_07 have "\<exists>tr r. compressImage64 (fuel - 1) br maxSize fileName (n + 1)
            (fst (shrink64 w h)) (snd (shrink64 w h)) (binary64 0.7) = Some (tr, r) \<and>
            length tr \<le> 5 + 1"
          by (rule compressImage64_small_terminates)
        then obtain tr r where "compressImage64 (fuel - 1) br maxSize fileName (n + 1)
            (fst (shrink64 w h)) (snd (shrink64 w h)) (binary64 0.7) = Some (tr, r)"
            "length tr \<le> 5 + 1"
          by blast
        moreover have "compressImage64 fuel br maxSize fileName n w h q =
            map_option (logged \<lparr>at_width = w, at_height = h, at_quality = q\<rparr>)
              (compressImage64 (fuel - 1) br maxSize fileName (n + 1)
                 (fst (shrink64 w h)) (snd (shrink64 w h)) (binary64 0.7))"
          using ob nq True Suc(4) by (intro compressImage64_shrink) simp_all
        ultimately show ?thesis by (simp add: logged_def)
      qed
    qed
  qed
qed

lemma removeExifData64_terminates:
  "\<exists>tr r. removeExifData64 (14 + k) br file maxSize maxDimension = Some (tr, r) \<and>
     length tr \<le> 14"
proof (cases "\<exists>url w h. readAsDataURL br file = Reader_onload (Some url) \<and> url \<noteq> [] \<and>
    load_image br url = Image_onload w h")
  case False
  then show ?thesis
    by (auto simp add: removeExifData64_def
        split: reader_event.splits option.splits image_event.splits)
next
  case True
  then obtain url w h where d: "readAsDataURL br file = Reader_onload (Some url)" "url \<noteq> []"
    "load_image br url = Image_onload w h"
    by blast
  have "binary64 0.92 \<le> (307 + 102 * real 7) / 1024" by (simp add: binary64_literals_normal)
  moreover have "(7::nat) \<le> 8" "7 + 6 < 14 + k" by simp_all
  ultimately have "\<exists>tr r. compressImage64 (14 + k) br maxSize (name file) 0
      (fst (initial_dimensions64 (real w) (real h) maxDimension))
      (snd (initial_dimensions64 (real w) (real h) maxDimension)) (binary64 0.92) = Some (tr, r) \<and>
      length tr \<le> 7 + 7"
    by (rule compressImage64_terminates)
  then show ?thesis using d by (simp add: removeExifData64_def)
qed

lemma removeExifData64_decoded:
  assumes "readAsDataURL br file = Reader_onload (Some url)" "url \<noteq> []"
    and "load_image br url = Image_onload w0 h0"
  shows "removeExifData64 fuel br file maxSize maxDimension =
    compressImage64 fuel br maxSize (name file) 0
      (fst (initial_dimensions64 (real w0) (real h0) maxDimension))
      (snd (initial_dimensions64 (real w0) (real h0) maxDimension)) (binary64 0.92)"
  using assms by (simp add: removeExifData64_def)

lemma removeExifData64_total:
  "\<exists>tr r. (\<forall>k. removeExifData64 (14 + k) br file maxSize maxDimension = Some (tr, r)) \<and>
     length tr \<le> 14"
proof (cases "\<exists>url w h. readAsDataURL br file = Reader_onload (Some url) \<and> url \<noteq> [] \<and>
    load_image br url = Image_onload w h")
  case False
  then have e: "removeExifData64 k br file maxSize maxDimension =
      removeExifData64 (14 + 0) br file maxSize maxDimension" for k
    by (auto simp add: removeExifData64_def
        split: reader_event.splits option.splits image_event.splits)
  from removeExifData64_terminates [of 0 br "file" maxSize maxDimension]
  obtain tr r where r: "removeExifData64 (14 + 0) br file maxSize maxDimension = Some (tr, r)"
    "length tr \<le> 14"
    by auto
  have "removeExifData64 (14 + k) br file maxSize maxDimension = Some (tr, r)" for k
    using r(1) e [of "14 + k"] by simp
  with r(2) show ?thesis by blast
next
  case True
  then obtain url w h where d: "readAsDataURL br file = Reader_onload (Some url)" "url \<noteq> []"
    "load_image br url = Image_onload w h"
    by blast
  from removeExifData64_terminates [of 0 br "file" maxSize maxDimension]
  obtain tr r where r: "removeExifData64 14 br file maxSize maxDimension = Some (tr, r)"
    "length tr \<le> 14"
    by auto
  have "removeExifData64 (14 + k) br file maxSize maxDimension = Some (tr, r)" for k
    using r(1) unfolding removeExifData64_decoded [OF d] by (rule compressImage64_fuel_mono)
  with r(2) show ?thesis by blast
qed


subsection \<open>The dimensions in double arithmetic\<close>

text \<open>
  The dimensions of a shrink and of the first attempt are positive, keep the aspect ratio
  up to two roundings, and a shrink puts the longer side at \<open>min (0.8 L) 800\<close> up to eight
  roundings, \<open>L\<close> being the longer side before.
\<close>

lemma shrink64_facts:
  assumes "0 < w" "0 < h"
  shows "0 < fst (shrink64 w h)" and "0 < snd (shrink64 w h)"
    and "near 2 (fst (shrink64 w h) / snd (shrink64 w h)) (w / h)"
    and "near 8 (max (fst (shrink64 w h)) (snd (shrink64 w h))) (min (0.8 * max w h) 800)"
proof -
  define A where "A = binary64 (w / h)"
  define P where "P = binary64 (w * binary64 0.8)"
  define N where "N = min P 800"
  define H where "H = binary64 (N / A)"
  define Ns where "Ns = min (0.8 * w) 800"
  define Hs where "Hs = Ns / (w / h)"
  define E where "E = min (0.8 * max w h) 800"
  have sh: "shrink64 w h = (if 800 < H then (binary64 (800 * A), 800) else (N, H))"
    unfolding shrink64_def Let_def H_def N_def P_def A_def by simp
  have wh: "0 < w / h" using assms by simp
  have A: "0 < A" "near 1 A (w / h)"
    unfolding A_def using wh by (rule binary64_pos, rule binary64_near)
  have b08: "0 < binary64 0.8" "near 1 (binary64 0.8) 0.8"
    by (rule binary64_pos, simp, rule binary64_near, simp)
  have "near 1 (w * binary64 0.8) (w * 0.8)"
    by (rule near_mult [OF near_refl [where k = 0] b08(2)]) (use assms b08 in simp_all)
  then have p1: "near 1 (w * binary64 0.8) (0.8 * w)" by (simp add: mult.commute)
  have wb: "0 < w * binary64 0.8" using assms b08 by simp
  have "near 1 P (w * binary64 0.8)" unfolding P_def using wb by (rule binary64_near)
  then have P: "near 2 P (0.8 * w)" using p1 by (rule near_trans) simp
  have Pp: "0 < P" unfolding P_def using wb by (rule binary64_pos)
  have "near 2 (800::real) 800" by (rule near_refl) simp
  with P have N: "near 2 N Ns" unfolding N_def Ns_def by (rule near_min)
  have Np: "0 < N" "N \<le> 800" unfolding N_def using Pp by simp_all
  have Nsp: "0 < Ns" "Ns \<le> 0.8 * w" "Ns \<le> 800" unfolding Ns_def using assms by simp_all
  have NA: "0 < N / A" using Np A by simp
  have H1: "near 1 H (N / A)" unfolding H_def using NA by (rule binary64_near)
  have Hp: "0 < H" unfolding H_def using NA by (rule binary64_pos)
  have "near 3 (N / A) (Ns / (w / h))"
    using N A(2) by (rule near_divide) (use Np Nsp A wh in simp_all)
  with H1 have H4: "near 4 H Hs" unfolding Hs_def by (rule near_trans) simp
  have "Ns / (w / h) \<le> (0.8 * w) / (w / h)"
    using Nsp(2) by (rule divide_right_mono) (use wh in simp)
  also have "(0.8 * w) / (w / h) = 0.8 * h" using assms by (simp add: field_simps)
  finally have Hs_le: "Hs \<le> 0.8 * h" unfolding Hs_def .
  have Hsp: "0 < Hs" unfolding Hs_def using Nsp(1) wh by (rule divide_pos_pos)
  have Ep: "0 < E" unfolding E_def using assms by (simp add: max_def)
  have p4: "0 < rho ^ 4" "0 < rho ^ 8" by (rule rho_pow_pos)+
  have r48: "rho ^ 4 \<le> rho ^ 8" by (rule rho_pow_mono) simp
  have le800: "fst (shrink64 w h) \<le> 800" "snd (shrink64 w h) \<le> 800"
    using shrink64_le_800 [of w h] by simp_all
  show "0 < fst (shrink64 w h)"
  proof (cases "800 < H")
    case True
    have "0 < binary64 (800 * A)" by (rule binary64_pos) (use A in simp)
    with True show ?thesis by (simp add: sh)
  next
    case False
    with Np show ?thesis by (simp add: sh)
  qed
  show "0 < snd (shrink64 w h)" using Hp by (simp add: sh)
  show "near 2 (fst (shrink64 w h) / snd (shrink64 w h)) (w / h)"
  proof (cases "800 < H")
    case True
    define W where "W = binary64 (800 * A)"
    have "0 < 800 * A" using A by simp
    then have W1: "near 1 W (800 * A)" "0 < W"
      unfolding W_def by (rule binary64_near, rule binary64_pos)
    have "near 1 (800 * A) (800 * (w / h))"
      by (rule near_mult [OF near_refl [where k = 0] A(2)]) (use A wh in simp_all)
    with W1(1) have "near 2 W (800 * (w / h))" by (rule near_trans) simp
    moreover have "near 0 (800::real) 800" by (rule near_refl) simp
    ultimately have "near 2 (W / 800) (800 * (w / h) / 800)"
      by (rule near_divide) (use W1 wh in simp_all)
    then have "near 2 (W / 800) (w / h)" by simp
    with True show ?thesis by (simp add: sh W_def)
  next
    case False
    have "near 0 N N" by (rule near_refl) (use Np in simp)
    then have "near 1 (N / H) (N / (N / A))"
      using H1 by (rule near_divide) (use Np Hp NA in simp_all)
    moreover have "N / (N / A) = A" using Np by simp
    ultimately have "near 1 (N / H) A" by simp
    then have "near 2 (N / H) (w / h)" using A(2) by (rule near_trans) simp
    with False show ?thesis by (simp add: sh)
  qed
  show "near 8 (max (fst (shrink64 w h)) (snd (shrink64 w h))) (min (0.8 * max w h) 800)"
  proof (cases "800 < H")
    case True
    then have s: "fst (shrink64 w h) = binary64 (800 * A)" "snd (shrink64 w h) = 800"
      by (simp_all add: sh)
    have m: "max (fst (shrink64 w h)) (snd (shrink64 w h)) = 800"
      using le800(1) unfolding s(2) by simp
    have "H \<le> Hs * rho ^ 4" using H4 by (simp add: near_def)
    also have "\<dots> \<le> (0.8 * h) * rho ^ 4" using Hs_le p4(1) by (simp add: mult_right_mono)
    also have "\<dots> \<le> (0.8 * max w h) * rho ^ 4" using p4(1) by (simp add: mult_right_mono)
    also have "\<dots> \<le> (0.8 * max w h) * rho ^ 8"
      using r48 by (rule mult_left_mono) (use assms in \<open>simp add: max_def\<close>)
    finally have 1: "800 \<le> (0.8 * max w h) * rho ^ 8" using True by simp
    have 2: "(800::real) \<le> 800 * rho ^ 8" by (rule near_le_scaled) simp
    have "E * rho ^ 8 = min ((0.8 * max w h) * rho ^ 8) (800 * rho ^ 8)"
      unfolding E_def using p4(2) by (simp add: min_def)
    with 1 2 have a: "800 \<le> E * rho ^ 8" by simp
    have "E \<le> 800" unfolding E_def by simp
    with 2 have b: "E \<le> 800 * rho ^ 8" by linarith
    from a b show ?thesis unfolding m E_def [symmetric] by (simp add: near_def)
  next
    case False
    then have s: "fst (shrink64 w h) = N" "snd (shrink64 w h) = H" by (simp_all add: sh)
    have "near 4 N Ns" using N by (rule near_mono) (use Np Nsp in simp_all)
    then have n4: "near 4 (max N H) (max Ns Hs)" using H4 by (rule near_max)
    have e4: "near 4 (max Ns Hs) E"
    proof (cases "h \<le> w")
      case True
      then have "1 \<le> w / h" using assms by simp
      then have "Ns / (w / h) \<le> Ns / 1"
        by (intro divide_left_mono) (use Nsp in simp_all)
      then have "max Ns Hs = Ns" unfolding Hs_def by simp
      moreover have "E = Ns" unfolding E_def Ns_def using True by (simp add: max_def)
      ultimately show ?thesis using near_refl [of Ns 4] Nsp(1) by simp
    next
      case wh': False
      then have lt: "w < h" by simp
      then have "w / h \<le> 1" using assms by simp
      then have "Ns / 1 \<le> Ns / (w / h)"
        by (intro divide_left_mono) (use Nsp wh in simp_all)
      then have mx: "max Ns Hs = Hs" unfolding Hs_def by simp
      have E: "E = min (0.8 * h) 800" unfolding E_def using lt by (simp add: max_def)
      have EH: "E \<le> Hs"
      proof (cases "0.8 * w \<le> 800")
        case True
        then have "Ns = 0.8 * w" unfolding Ns_def by simp
        then have "Hs = 0.8 * h" unfolding Hs_def using assms by (simp add: field_simps)
        then show ?thesis unfolding E by simp
      next
        case False
        then have "Ns = 800" unfolding Ns_def by simp
        then have "Hs = 800 / (w / h)" unfolding Hs_def by simp
        moreover have "800 / 1 \<le> 800 / (w / h)"
          by (intro divide_left_mono) (use \<open>w / h \<le> 1\<close> wh in simp_all)
        ultimately show ?thesis unfolding E by simp
      qed
      have "Hs \<le> H * rho ^ 4" using H4 by (simp add: near_def)
      also have "\<dots> \<le> 800 * rho ^ 4" using \<open>\<not> 800 < H\<close> p4(1) by (simp add: mult_right_mono)
      finally have 1: "Hs \<le> 800 * rho ^ 4" .
      have "0.8 * h \<le> (0.8 * h) * rho ^ 4" by (rule near_le_scaled) (use assms in simp)
      with Hs_le have 2: "Hs \<le> (0.8 * h) * rho ^ 4" by linarith
      have "E * rho ^ 4 = min ((0.8 * h) * rho ^ 4) (800 * rho ^ 4)"
        unfolding E using p4(1) by (simp add: min_def)
      with 1 2 have a: "Hs \<le> E * rho ^ 4" by simp
      have "Hs \<le> Hs * rho ^ 4" by (rule near_le_scaled) (use Hsp in simp)
      with EH have b: "E \<le> Hs * rho ^ 4" by linarith
      from a b show ?thesis unfolding mx by (simp add: near_def)
    qed
    from n4 e4 have "near 8 (max N H) E" by (rule near_trans) simp
    then show ?thesis unfolding s E_def .
  qed
qed

lemma initial_dimensions64_facts:
  assumes "0 < w0" "0 < h0" "0 < m" and m: "m = of_int k * 2 powi j" "k < 2 ^ 53"
  shows "0 < fst (initial_dimensions64 w0 h0 m)" and "0 < snd (initial_dimensions64 w0 h0 m)"
    and "fst (initial_dimensions64 w0 h0 m) \<le> m" and "snd (initial_dimensions64 w0 h0 m) \<le> m"
    and "m < w0 \<or> m < h0 \<Longrightarrow>
         max (fst (initial_dimensions64 w0 h0 m)) (snd (initial_dimensions64 w0 h0 m)) = m"
    and "\<not> (m < w0 \<or> m < h0) \<Longrightarrow> initial_dimensions64 w0 h0 m = (w0, h0)"
    and "near 2 (fst (initial_dimensions64 w0 h0 m) / snd (initial_dimensions64 w0 h0 m)) (w0 / h0)"
proof -
  define A where "A = binary64 (w0 / h0)"
  have wh: "0 < w0 / h0" using assms(1,2) by simp
  have A: "0 < A" "near 1 A (w0 / h0)"
    unfolding A_def using wh by (rule binary64_pos, rule binary64_near)
  have d: "initial_dimensions64 w0 h0 m =
     (if m < w0 \<or> m < h0 then
        (if h0 < w0 then (m, binary64 (m / A)) else (binary64 (m * A), m))
      else (w0, h0))"
    unfolding initial_dimensions64_def Let_def A_def by simp
  have "of_int k < (2::real) ^ 53" using m(2) by (metis of_int_less_iff of_int_numeral of_int_power)
  then have "of_int k * 2 powi j < (2::real) ^ 53 * 2 powi j" by (simp add: mult_right_mono)
  also have "(2::real) ^ 53 * 2 powi j = 2 powi (j + 53)" by (simp add: power_int_add)
  finally have grid: "m < 2 powi (j + 53)" unfolding m(1) .
  have round_le: "binary64 x \<le> m" if "x \<le> m" for x
    using that m(1) assms(3) grid by (rule binary64_le)
  have land: "h0 < w0 \<longrightarrow>
    0 < binary64 (m / A) \<and> binary64 (m / A) \<le> m \<and> near 2 (m / binary64 (m / A)) (w0 / h0)"
  proof
    assume that: "h0 < w0"
    have "1 \<le> w0 / h0" using that assms(1,2) by simp
    then have a1: "1 \<le> A" unfolding A_def by (rule binary64_ge_1)
    have mA: "0 < m / A" using assms(3) A by simp
    have "m / A \<le> m / 1" by (intro divide_left_mono) (use a1 assms(3) in simp_all)
    then have le: "binary64 (m / A) \<le> m" by (intro round_le) simp
    have p: "0 < binary64 (m / A)" using mA by (rule binary64_pos)
    have n: "near 1 (binary64 (m / A)) (m / A)" using mA by (rule binary64_near)
    have "near 0 m m" by (rule near_refl) (use assms(3) in simp)
    then have "near 1 (m / binary64 (m / A)) (m / (m / A))"
      using n by (rule near_divide) (use assms(3) p mA in simp_all)
    moreover have "m / (m / A) = A" using assms(3) by simp
    ultimately have "near 1 (m / binary64 (m / A)) A" by simp
    then have "near 2 (m / binary64 (m / A)) (w0 / h0)" using A(2) by (rule near_trans) simp
    with p le show "0 < binary64 (m / A) \<and> binary64 (m / A) \<le> m \<and>
      near 2 (m / binary64 (m / A)) (w0 / h0)" by simp
  qed
  have port: "\<not> h0 < w0 \<longrightarrow>
    0 < binary64 (m * A) \<and> binary64 (m * A) \<le> m \<and> near 2 (binary64 (m * A) / m) (w0 / h0)"
  proof
    assume that: "\<not> h0 < w0"
    have "w0 / h0 \<le> 1" using that assms(1,2) by simp
    then have a1: "A \<le> 1" unfolding A_def by (rule binary64_le_1)
    have mA: "0 < m * A" using assms(3) A by simp
    have "m * A \<le> m * 1" by (intro mult_left_mono) (use a1 assms(3) in simp_all)
    then have le: "binary64 (m * A) \<le> m" by (intro round_le) simp
    have p: "0 < binary64 (m * A)" using mA by (rule binary64_pos)
    have n: "near 1 (binary64 (m * A)) (m * A)" using mA by (rule binary64_near)
    have "near 0 m m" by (rule near_refl) (use assms(3) in simp)
    with n have "near 1 (binary64 (m * A) / m) (m * A / m)"
      by (rule near_divide) (use assms(3) p mA in simp_all)
    moreover have "m * A / m = A" using assms(3) by simp
    ultimately have "near 1 (binary64 (m * A) / m) A" by simp
    then have "near 2 (binary64 (m * A) / m) (w0 / h0)" using A(2) by (rule near_trans) simp
    with p le show "0 < binary64 (m * A) \<and> binary64 (m * A) \<le> m \<and>
      near 2 (binary64 (m * A) / m) (w0 / h0)" by simp
  qed
  have same: "near 2 (w0 / h0) (w0 / h0)" by (rule near_refl) (use wh in simp)
  have pos: "0 < w0" "0 < h0" "0 < m" by (rule assms(1), rule assms(2), rule assms(3))
  show "0 < fst (initial_dimensions64 w0 h0 m)"
    unfolding d using pos port by (cases "m < w0 \<or> m < h0"; cases "h0 < w0"; simp)
  show "0 < snd (initial_dimensions64 w0 h0 m)"
    unfolding d using pos land by (cases "m < w0 \<or> m < h0"; cases "h0 < w0"; simp)
  show "fst (initial_dimensions64 w0 h0 m) \<le> m"
    unfolding d using pos port by (cases "m < w0 \<or> m < h0"; cases "h0 < w0"; simp)
  show "snd (initial_dimensions64 w0 h0 m) \<le> m"
    unfolding d using pos land by (cases "m < w0 \<or> m < h0"; cases "h0 < w0"; simp)
  show "max (fst (initial_dimensions64 w0 h0 m)) (snd (initial_dimensions64 w0 h0 m)) = m"
    if "m < w0 \<or> m < h0"
    unfolding d using that land port by (cases "h0 < w0"; simp)
  show "initial_dimensions64 w0 h0 m = (w0, h0)" if "\<not> (m < w0 \<or> m < h0)"
    unfolding d using that by simp
  show "near 2 (fst (initial_dimensions64 w0 h0 m) / snd (initial_dimensions64 w0 h0 m)) (w0 / h0)"
    unfolding d using land port same by (cases "m < w0 \<or> m < h0"; cases "h0 < w0"; simp)
qed

text \<open>The dimensions of every attempt: those the search starts with, or their shrink.\<close>

lemma compressImage64_dimensions:
  "compressImage64 fuel br maxSize fileName n w h q = Some (tr, r) \<Longrightarrow> a \<in> set tr \<Longrightarrow>
   (at_width a, at_height a) = (w, h) \<or>
   (800 < w \<or> 800 < h) \<and> (at_width a, at_height a) = shrink64 w h"
proof (induction fuel arbitrary: n w h q tr r)
  case 0
  then show ?case by simp
next
  case (Suc fuel)
  have b: "Suc fuel - 1 = fuel" by simp
  let ?a = "\<lparr>at_width = w, at_height = h, at_quality = q\<rparr>"
  show ?case
  proof (cases rule: compressImage64_cases [of br maxSize n w h q])
    case stop
    from Suc(2) have "(tr, r) = (if \<not> getContext br n then ([], Inl (Error ''Canvas context not available''))
      else ([?a], outcome br fileName n ?a))"
      unfolding compressImage64_stop [OF stop zero_less_Suc] by simp
    with Suc(3) have "a = ?a" by (simp split: if_splits)
    then show ?thesis by simp
  next
    case lower
    from Suc(2) obtain tr' r' where
      r': "compressImage64 fuel br maxSize fileName (n + 1) w h (binary64 (q - binary64 0.1)) =
        Some (tr', r')" "tr = ?a # tr'"
      unfolding compressImage64_lower_quality [OF lower zero_less_Suc] b
      by (auto simp add: logged_def)
    from Suc(3) r'(2) have "a = ?a \<or> a \<in> set tr'" by simp
    then show ?thesis
    proof
      assume "a = ?a"
      then show ?thesis by simp
    next
      assume "a \<in> set tr'"
      with r'(1) show ?thesis by (rule Suc.IH)
    qed
  next
    case shrink
    from Suc(2) obtain tr' r' where
      r': "compressImage64 fuel br maxSize fileName (n + 1) (fst (shrink64 w h)) (snd (shrink64 w h))
        (binary64 0.7) = Some (tr', r')" "tr = ?a # tr'"
      unfolding compressImage64_shrink [OF shrink zero_less_Suc] b
      by (auto simp add: logged_def)
    from Suc(3) r'(2) have "a = ?a \<or> a \<in> set tr'" by simp
    then show ?thesis
    proof
      assume "a = ?a"
      then show ?thesis by simp
    next
      assume "a \<in> set tr'"
      with r'(1) have "(at_width a, at_height a) = (fst (shrink64 w h), snd (shrink64 w h)) \<or>
        (800 < fst (shrink64 w h) \<or> 800 < snd (shrink64 w h)) \<and>
        (at_width a, at_height a) = shrink64 (fst (shrink64 w h)) (snd (shrink64 w h))"
        by (rule Suc.IH)
      moreover have "\<not> (800 < fst (shrink64 w h) \<or> 800 < snd (shrink64 w h))"
        using shrink64_le_800 [of w h] by simp
      ultimately show ?thesis using shrink(3) by simp
    qed
  qed
qed

text \<open>The first attempt of a search is made at the state it is started in.\<close>

lemma compressImage64_hd:
  "compressImage64 fuel br maxSize fileName n w h q = Some (tr, r) \<Longrightarrow> tr \<noteq> [] \<Longrightarrow>
   hd tr = \<lparr>at_width = w, at_height = h, at_quality = q\<rparr>"
proof (cases fuel)
  case 0
  assume "compressImage64 fuel br maxSize fileName n w h q = Some (tr, r)"
  with 0 show ?thesis by simp
next
  case (Suc fuel')
  assume r: "compressImage64 fuel br maxSize fileName n w h q = Some (tr, r)" and ne: "tr \<noteq> []"
  have b: "Suc fuel' - 1 = fuel'" by simp
  let ?a = "\<lparr>at_width = w, at_height = h, at_quality = q\<rparr>"
  show ?thesis
  proof (cases rule: compressImage64_cases [of br maxSize n w h q])
    case stop
    from r have "(tr, r) = (if \<not> getContext br n then ([], Inl (Error ''Canvas context not available''))
      else ([?a], outcome br fileName n ?a))"
      unfolding Suc compressImage64_stop [OF stop zero_less_Suc] by simp
    with ne show ?thesis by (simp split: if_splits)
  next
    case lower
    from r show ?thesis
      unfolding Suc compressImage64_lower_quality [OF lower zero_less_Suc] b
      by (auto simp add: logged_def)
  next
    case shrink
    from r show ?thesis
      unfolding Suc compressImage64_shrink [OF shrink zero_less_Suc] b
      by (auto simp add: logged_def)
  qed
qed

lemma final_dimensions_facts:
  assumes "0 < w1" "0 < h1" "w1 \<le> m" "h1 \<le> m" "0 < c" "near 2 (w1 / h1) c"
    and alt: "(aw, ah) = (w1, h1) \<or> (800 < w1 \<or> 800 < h1) \<and> (aw, ah) = shrink64 w1 h1"
  shows "0 < aw" and "0 < ah" and "max aw ah \<le> m" and "near 4 (aw / ah) c"
    and "aw = w1 \<and> ah = h1 \<or>
         (800 < w1 \<or> 800 < h1) \<and> (aw, ah) = shrink64 w1 h1 \<and>
         near 8 (max aw ah) (min (0.8 * max w1 h1) 800)"
proof -
  have all: "0 < aw \<and> 0 < ah \<and> max aw ah \<le> m \<and> near 4 (aw / ah) c \<and>
      (aw = w1 \<and> ah = h1 \<or>
         (800 < w1 \<or> 800 < h1) \<and> (aw, ah) = shrink64 w1 h1 \<and>
         near 8 (max aw ah) (min (0.8 * max w1 h1) 800))"
    using alt
  proof
    assume "(aw, ah) = (w1, h1)"
    then have e: "aw = w1" "ah = h1" by simp_all
    have "near 4 (w1 / h1) c"
      using assms(6) by (rule near_mono) (use assms(1,2,5) in simp_all)
    with assms(1-4) show ?thesis unfolding e by simp
  next
    assume s: "(800 < w1 \<or> 800 < h1) \<and> (aw, ah) = shrink64 w1 h1"
    then have sh: "shrink64 w1 h1 = (aw, ah)" by simp
    have e: "fst (shrink64 w1 h1) = aw" "snd (shrink64 w1 h1) = ah" unfolding sh by simp_all
    note f = shrink64_facts [OF assms(1,2), unfolded e]
    have le: "aw \<le> 800" "ah \<le> 800" using shrink64_le_800 [of w1 h1] unfolding e by simp_all
    from s assms(3,4) have "800 < m" by auto
    with le have mx: "max aw ah \<le> m" by simp
    from f(3) assms(6) have "near 4 (aw / ah) c" by (rule near_trans) simp
    with f(1,2,4) mx s show ?thesis by simp
  qed
  from all show "0 < aw" and "0 < ah" and "max aw ah \<le> m" and "near 4 (aw / ah) c"
    and "aw = w1 \<and> ah = h1 \<or>
         (800 < w1 \<or> 800 < h1) \<and> (aw, ah) = shrink64 w1 h1 \<and>
         near 8 (max aw ah) (min (0.8 * max w1 h1) 800)"
    by simp_all
qed

subsection \<open>The number of attempts\<close>





subsection \<open>The returned file\<close>

text \<open>
  Claim C1, in double arithmetic.  For every file that is read and decodes to an image
  of positive dimensions \<open>removeExifData\<close> settles: fuel for 14 canvases or more gives one
  and the same result, after at most 14 attempts, and when the browser refuses no
  context and no encoding the result is a \<open>File\<close>.  A returned \<open>File\<close> is the encoding of the
  last attempt, under the name of the input and as \<open>image/jpeg\<close>, and either its size is at
  most \<open>maxSize\<close>, or the width and the height of that attempt are both at most 800 and
  its quality is at most the double 0.3, which is below 0.3.
\<close>

theorem returned_file_fits_or_search_exhausted:
  assumes "readAsDataURL br file = Reader_onload (Some url)" "url \<noteq> []"
    and "load_image br url = Image_onload w0 h0" and "0 < w0" "0 < h0"
  shows "\<exists>tr r. (\<forall>k. removeExifData64 (14 + k) br file maxSize maxDimension = Some (tr, r)) \<and>
    length tr \<le> 14 \<and>
    ((\<forall>n. getContext br n) \<and> (\<forall>n w h q. toBlob br n mimeType w h q \<noteq> None) \<longrightarrow>
       (\<exists>f. r = Inr f)) \<and>
    (\<forall>f. r = Inr f \<longrightarrow>
       tr \<noteq> [] \<and>
       f = new_File (encoded mimeType (at_width (last tr)) (at_height (last tr))
             (at_quality (last tr)) (blob_size (blob f))) (name file) mimeType \<and>
       toBlob br (length tr - 1) mimeType (at_width (last tr)) (at_height (last tr))
         (at_quality (last tr)) = Some (blob_size (blob f)) \<and>
       (real (blob_size (blob f)) \<le> maxSize \<or>
        at_width (last tr) \<le> 800 \<and> at_height (last tr) \<le> 800 \<and>
        at_quality (last tr) \<le> binary64 0.3 \<and> at_quality (last tr) < 0.3))"
proof -
  from removeExifData64_total [of br "file" maxSize maxDimension]
  obtain tr r where all: "\<And>k. removeExifData64 (14 + k) br file maxSize maxDimension = Some (tr, r)"
    and len: "length tr \<le> 14"
    by blast
  from all [of 0] have "compressImage64 14 br maxSize (name file) 0
      (fst (initial_dimensions64 (real w0) (real h0) maxDimension))
      (snd (initial_dimensions64 (real w0) (real h0) maxDimension)) (binary64 0.92) = Some (tr, r)"
    unfolding removeExifData64_decoded [OF assms(1,2,3)] by simp
  from compressImage64_result [OF this]
  have shape: "(tr = [] \<and> \<not> getContext br 0 \<and> r = Inl (Error ''Canvas context not available'')) \<or>
   (\<exists>tr0 a. tr = tr0 @ [a] \<and> getContext br (length tr0) \<and>
      (\<not> continues br maxSize (length tr0) a \<and> r = outcome br (name file) (length tr0) a \<or>
       continues br maxSize (length tr0) a \<and> \<not> getContext br (Suc (length tr0)) \<and>
         r = Inl (Error ''Canvas context not available'')))"
    by simp
  have ok: "\<exists>f. r = Inr f"
    if "\<forall>n. getContext br n" "\<forall>n w h q. toBlob br n mimeType w h q \<noteq> None"
  proof -
    from shape that(1) obtain tr0 :: "attempt list" and a where
      "r = outcome br (name file) (length tr0) a" by auto
    moreover from that(2) obtain sz where
      "toBlob br (length tr0) mimeType (at_width a) (at_height a) (at_quality a) = Some sz"
      by fastforce
    ultimately show ?thesis by (simp add: outcome_def)
  qed
  have ret: "tr \<noteq> [] \<and>
       f = new_File (encoded mimeType (at_width (last tr)) (at_height (last tr))
             (at_quality (last tr)) (blob_size (blob f))) (name file) mimeType \<and>
       toBlob br (length tr - 1) mimeType (at_width (last tr)) (at_height (last tr))
         (at_quality (last tr)) = Some (blob_size (blob f)) \<and>
       (real (blob_size (blob f)) \<le> maxSize \<or>
        at_width (last tr) \<le> 800 \<and> at_height (last tr) \<le> 800 \<and>
        at_quality (last tr) \<le> binary64 0.3 \<and> at_quality (last tr) < 0.3)"
    if f: "r = Inr f" for f
  proof -
    from shape f obtain tr0 a where t: "tr = tr0 @ [a]" "getContext br (length tr0)"
      "\<not> continues br maxSize (length tr0) a" "outcome br (name file) (length tr0) a = Inr f"
      by auto
    from t(4) obtain sz where
      sz: "toBlob br (length tr0) mimeType (at_width a) (at_height a) (at_quality a) = Some sz"
      "f = new_File (encoded mimeType (at_width a) (at_height a) (at_quality a) sz) (name file) mimeType"
      by (auto simp add: outcome_def split: option.splits)
    from sz(2) have bs: "blob_size (blob f) = sz" by (simp add: new_File_def encoded_def)
    have b03: "binary64 0.3 < 0.3" by (simp add: binary64_literals_normal)
    from t(2,3) sz(1) have "real sz \<le> maxSize \<or>
      \<not> binary64 0.3 < at_quality a \<and> \<not> 800 < at_width a \<and> \<not> 800 < at_height a"
      by (auto simp add: continues_def over_budget_def)
    then have "real sz \<le> maxSize \<or>
        at_width a \<le> 800 \<and> at_height a \<le> 800 \<and>
        at_quality a \<le> binary64 0.3 \<and> at_quality a < 0.3"
      using b03 by auto
    with t(1) sz bs show ?thesis by simp
  qed
  from all len ok ret show ?thesis by blast
qed

lemma dimensions64_900:
  "initial_dimensions64 900 600 1920 = (900, 600)"
  "shrink64 900 600 = (720, 480)"
  by (simp_all add: initial_dimensions64_def shrink64_def Let_def binary64_simps)

lemma scaling_over_budget:
  "1 \<le> w * h * q \<Longrightarrow> over_budget (scaling_browser w0 h0) 0 n w h q"
proof -
  assume "1 \<le> w * h * q"
  then have "1 \<le> \<lfloor>w * h * q\<rfloor>" by (simp add: le_floor_iff)
  then show ?thesis by (simp add: over_budget_def scaling_browser_def)
qed

lemma last_blob_900:
  "toBlob (scaling_browser 900 600) n mimeType 720 480 (7205759403792795 / 36028797018963968) =
     Some 69120"
  by (simp add: scaling_browser_def)

lemma run_900x600:
  "removeExifData64 14 (scaling_browser 900 600) photo 0 1920 =
     Some (map (\<lambda>q. \<lparr>at_width = 900, at_height = 600, at_quality = q\<rparr>)
         [8286623314361713 / 9007199254740992, 3692951694443807 / 4503599627370496,
          6485183463413515 / 9007199254740992, 698057942242427 / 1125899906842624,
          4683743612465317 / 9007199254740992, 1891511843495609 / 4503599627370496,
          2882303761517119 / 9007199254740992, 7926335344172079 / 36028797018963968] @
       map (\<lambda>q. \<lparr>at_width = 720, at_height = 480, at_quality = q\<rparr>)
         [3152519739159347 / 4503599627370496, 5404319552844595 / 9007199254740992, 1 / 2,
          3602879701896397 / 9007199254740992, 1351079888211149 / 4503599627370496,
          7205759403792795 / 36028797018963968],
       Inr \<lparr>name = ''photo.jpg'', type = ''image/jpeg'',
         blob = \<lparr>blob_size = 69120, blob_type = ''image/jpeg'', pixel_width = 720,
           pixel_height = 480, encoded_quality = 7205759403792795 / 36028797018963968\<rparr>\<rparr>)"
proof -
  have "removeExifData64 14 (scaling_browser 900 600) photo 0 1920 =
      compressImage64 14 (scaling_browser 900 600) 0 ''photo.jpg'' 0 900 600 (binary64 0.92)"
    by (simp add: removeExifData64_def scaling_browser_def photo_def dimensions64_900)
  also have "\<dots> =
     Some (map (\<lambda>q. \<lparr>at_width = 900, at_height = 600, at_quality = q\<rparr>)
         [8286623314361713 / 9007199254740992, 3692951694443807 / 4503599627370496,
          6485183463413515 / 9007199254740992, 698057942242427 / 1125899906842624,
          4683743612465317 / 9007199254740992, 1891511843495609 / 4503599627370496,
          2882303761517119 / 9007199254740992, 7926335344172079 / 36028797018963968] @
       map (\<lambda>q. \<lparr>at_width = 720, at_height = 480, at_quality = q\<rparr>)
         [3152519739159347 / 4503599627370496, 5404319552844595 / 9007199254740992, 1 / 2,
          3602879701896397 / 9007199254740992, 1351079888211149 / 4503599627370496,
          7205759403792795 / 36028797018963968],
       Inr (new_File (encoded mimeType 720 480 (7205759403792795 / 36028797018963968) 69120)
              ''photo.jpg'' mimeType))"
    by (simp add: compressImage64_lower_quality compressImage64_shrink compressImage64_floor
        scaling_over_budget last_blob_900 dimensions64_900 logged_def binary64_simps
        del: compressImage64.simps)
  finally show ?thesis
    by (simp add: new_File_def encoded_def mimeType_def canvas_simps)
qed

theorem returned_file_fits_or_search_exhausted_witness:
  "\<exists>tr. (\<forall>k. removeExifData64 (14 + k) (scaling_browser 900 600) photo 0 1920 =
       Some (tr, Inr \<lparr>name = ''photo.jpg'', type = ''image/jpeg'',
         blob = \<lparr>blob_size = 69120, blob_type = ''image/jpeg'', pixel_width = 720,
           pixel_height = 480, encoded_quality = 7205759403792795 / 36028797018963968\<rparr>\<rparr>)) \<and>
     length tr = 14 \<and> at_width (last tr) = 720 \<and> at_height (last tr) = 480 \<and>
     at_quality (last tr) = 7205759403792795 / 36028797018963968 \<and>
     at_quality (last tr) < 0.3 \<and> \<not> real 69120 \<le> 0"
proof -
  have "readAsDataURL (scaling_browser 900 600) photo =
      Reader_onload (Some ''data:image/jpeg;base64,'')"
    "''data:image/jpeg;base64,'' \<noteq> []"
    "load_image (scaling_browser 900 600) ''data:image/jpeg;base64,'' = Image_onload 900 600"
    "(0::nat) < 900" "(0::nat) < 600"
    by (simp_all add: scaling_browser_def)
  from returned_file_fits_or_search_exhausted [OF this, of 0 1920]
  have "\<exists>tr r. \<forall>k. removeExifData64 (14 + k) (scaling_browser 900 600) photo 0 1920 = Some (tr, r)"
    by (elim exE conjE) (intro exI, assumption)
  then obtain tr r where
    all: "\<And>k. removeExifData64 (14 + k) (scaling_browser 900 600) photo 0 1920 = Some (tr, r)"
    by (elim exE) simp
  from all [of 0] have tr: "tr = map (\<lambda>q. \<lparr>at_width = 900, at_height = 600, at_quality = q\<rparr>)
         [8286623314361713 / 9007199254740992, 3692951694443807 / 4503599627370496,
          6485183463413515 / 9007199254740992, 698057942242427 / 1125899906842624,
          4683743612465317 / 9007199254740992, 1891511843495609 / 4503599627370496,
          2882303761517119 / 9007199254740992, 7926335344172079 / 36028797018963968] @
       map (\<lambda>q. \<lparr>at_width = 720, at_height = 480, at_quality = q\<rparr>)
         [3152519739159347 / 4503599627370496, 5404319552844595 / 9007199254740992, 1 / 2,
          3602879701896397 / 9007199254740992, 1351079888211149 / 4503599627370496,
          7205759403792795 / 36028797018963968]"
    and r: "r = Inr \<lparr>name = ''photo.jpg'', type = ''image/jpeg'',
         blob = \<lparr>blob_size = 69120, blob_type = ''image/jpeg'', pixel_width = 720,
           pixel_height = 480, encoded_quality = 7205759403792795 / 36028797018963968\<rparr>\<rparr>"
    unfolding add_0_right run_900x600 by simp_all
  have "length tr = 14 \<and> at_width (last tr) = 720 \<and> at_height (last tr) = 480 \<and>
     at_quality (last tr) = 7205759403792795 / 36028797018963968 \<and>
     at_quality (last tr) < 0.3 \<and> \<not> real 69120 \<le> 0"
    unfolding tr by simp
  with all [unfolded r] show ?thesis by (intro exI [of _ tr] conjI allI) simp_all
qed

subsection \<open>The failures\<close>

text \<open>
  Claim C8, in double arithmetic.  \<open>removeExifData\<close> settles, and its result is
  the \<open>ReadError\<close> exactly when the reader fires \<open>onerror\<close> or delivers no or an empty
  result; the \<open>DecodeError\<close> exactly when the file is read and the image fires \<open>onerror\<close>;
  the \<open>SurfaceError\<close> exactly when the image is decoded and a canvas of the search gets
  no context, be it the first one (no attempt is logged) or the one that follows an
  attempt that was over the budget and not the last.  On a \<open>ReadError\<close> or \<open>DecodeError\<close> no
  canvas was encoded.
\<close>

theorem failure_kinds:
  "\<exists>tr r. (\<forall>k. removeExifData64 (14 + k) br file maxSize maxDimension = Some (tr, r)) \<and>
    (r = Inl ReadError \<longleftrightarrow>
       readAsDataURL br file = Reader_onerror \<or> readAsDataURL br file = Reader_onload None \<or>
       readAsDataURL br file = Reader_onload (Some [])) \<and>
    (r = Inl DecodeError \<longleftrightarrow>
       (\<exists>url. readAsDataURL br file = Reader_onload (Some url) \<and> url \<noteq> [] \<and>
          load_image br url = Image_onerror)) \<and>
    (r = Inl SurfaceError \<longleftrightarrow>
       (\<exists>url w h. readAsDataURL br file = Reader_onload (Some url) \<and> url \<noteq> [] \<and>
          load_image br url = Image_onload w h) \<and>
       \<not> getContext br (length tr) \<and>
       (tr = [] \<or> continues br maxSize (length tr - 1) (last tr))) \<and>
    (r = Inl ReadError \<or> r = Inl DecodeError \<longrightarrow> tr = [])"
proof -
  from removeExifData64_total [of br "file" maxSize maxDimension]
  obtain tr r where all: "\<And>k. removeExifData64 (14 + k) br file maxSize maxDimension = Some (tr, r)"
    by blast
  note r = all [of 0]
  have msgs: "ReadError \<noteq> DecodeError" "ReadError \<noteq> SurfaceError" "DecodeError \<noteq> SurfaceError"
    "ReadError \<noteq> EncodeError" "DecodeError \<noteq> EncodeError" "SurfaceError \<noteq> EncodeError"
    by (simp_all add: ReadError_def DecodeError_def SurfaceError_def EncodeError_def)
  have props: "(r = Inl ReadError \<longleftrightarrow>
       readAsDataURL br file = Reader_onerror \<or> readAsDataURL br file = Reader_onload None \<or>
       readAsDataURL br file = Reader_onload (Some [])) \<and>
    (r = Inl DecodeError \<longleftrightarrow>
       (\<exists>url. readAsDataURL br file = Reader_onload (Some url) \<and> url \<noteq> [] \<and>
          load_image br url = Image_onerror)) \<and>
    (r = Inl SurfaceError \<longleftrightarrow>
       (\<exists>url w h. readAsDataURL br file = Reader_onload (Some url) \<and> url \<noteq> [] \<and>
          load_image br url = Image_onload w h) \<and>
       \<not> getContext br (length tr) \<and>
       (tr = [] \<or> continues br maxSize (length tr - 1) (last tr))) \<and>
    (r = Inl ReadError \<or> r = Inl DecodeError \<longrightarrow> tr = [])"
  proof (cases "\<exists>url w h. readAsDataURL br file = Reader_onload (Some url) \<and> url \<noteq> [] \<and>
      load_image br url = Image_onload w h")
    case False
    show ?thesis
    proof (cases "readAsDataURL br file")
      case Reader_onerror
      with r have "tr = []" "r = Inl ReadError"
        by (simp_all add: removeExifData64_def ReadError_def)
      then show ?thesis using Reader_onerror msgs by simp
    next
      case (Reader_onload x)
      show ?thesis
      proof (cases x)
        case None
        with r Reader_onload have "tr = []" "r = Inl ReadError"
          by (simp_all add: removeExifData64_def ReadError_def)
        then show ?thesis using Reader_onload None msgs by simp
      next
        case (Some url)
        show ?thesis
        proof (cases "url = []")
          case True
          with r Reader_onload Some have "tr = []" "r = Inl ReadError"
            by (simp_all add: removeExifData64_def ReadError_def)
          then show ?thesis using Reader_onload Some True msgs by simp
        next
          case nonempty: False
          with False Reader_onload Some have "load_image br url = Image_onerror"
            by (cases "load_image br url") simp_all
          moreover from this r Reader_onload Some nonempty have "tr = []" "r = Inl DecodeError"
            by (simp_all add: removeExifData64_def DecodeError_def)
          ultimately show ?thesis using Reader_onload Some nonempty msgs by simp
        qed
      qed
    qed
  next
    case True
    then obtain url w0 h0 where d: "readAsDataURL br file = Reader_onload (Some url)" "url \<noteq> []"
      "load_image br url = Image_onload w0 h0"
      by blast
    from r have "compressImage64 14 br maxSize (name file) 0
        (fst (initial_dimensions64 (real w0) (real h0) maxDimension))
        (snd (initial_dimensions64 (real w0) (real h0) maxDimension)) (binary64 0.92) = Some (tr, r)"
      unfolding removeExifData64_decoded [OF d] by simp
    from compressImage64_result [OF this]
    have shape: "(tr = [] \<and> \<not> getContext br 0 \<and> r = Inl SurfaceError) \<or>
     (\<exists>tr0 a. tr = tr0 @ [a] \<and> getContext br (length tr0) \<and>
        (\<not> continues br maxSize (length tr0) a \<and> r = outcome br (name file) (length tr0) a \<or>
         continues br maxSize (length tr0) a \<and> \<not> getContext br (Suc (length tr0)) \<and>
           r = Inl SurfaceError))"
      by (simp add: SurfaceError_def)
    have out: "outcome br (name file) n a \<noteq> Inl ReadError"
      "outcome br (name file) n a \<noteq> Inl DecodeError"
      "outcome br (name file) n a \<noteq> Inl SurfaceError" for n a
      using msgs(4,5,6)
      by (cases "toBlob br n mimeType (at_width a) (at_height a) (at_quality a)";
          simp add: outcome_def EncodeError_def [symmetric])+
    from shape have alt: "r = Inl SurfaceError \<or> (\<exists>n a. r = outcome br (name file) n a)"
      by blast
    have 1: "r \<noteq> Inl ReadError" "r \<noteq> Inl DecodeError"
    proof -
      from alt show "r \<noteq> Inl ReadError"
      proof (elim disjE exE)
        assume "r = Inl SurfaceError"
        then show ?thesis using msgs by simp
      next
        fix n a
        assume "r = outcome br (name file) n a"
        then show ?thesis using out(1) [of n a] by simp
      qed
      from alt show "r \<noteq> Inl DecodeError"
      proof (elim disjE exE)
        assume "r = Inl SurfaceError"
        then show ?thesis using msgs by simp
      next
        fix n a
        assume "r = outcome br (name file) n a"
        then show ?thesis using out(2) [of n a] by simp
      qed
    qed
    have 2: "r = Inl SurfaceError \<longleftrightarrow>
       \<not> getContext br (length tr) \<and> (tr = [] \<or> continues br maxSize (length tr - 1) (last tr))"
      using shape
    proof (elim disjE exE conjE)
      assume "tr = []" "\<not> getContext br 0" "r = Inl SurfaceError"
      then show ?thesis by simp
    next
      fix tr0 a
      assume "tr = tr0 @ [a]" "getContext br (length tr0)"
        "\<not> continues br maxSize (length tr0) a" "r = outcome br (name file) (length tr0) a"
      then show ?thesis using out(3) [of "length tr0" a] by simp
    next
      fix tr0 a
      assume "tr = tr0 @ [a]" "getContext br (length tr0)"
        "continues br maxSize (length tr0) a" "\<not> getContext br (Suc (length tr0))"
        "r = Inl SurfaceError"
      then show ?thesis by simp
    qed
    have 3: "\<not> (readAsDataURL br file = Reader_onerror \<or> readAsDataURL br file = Reader_onload None \<or>
       readAsDataURL br file = Reader_onload (Some []))"
      using d(1,2) by simp
    have 4: "\<not> (\<exists>url. readAsDataURL br file = Reader_onload (Some url) \<and> url \<noteq> [] \<and>
          load_image br url = Image_onerror)"
      using d by simp
    show ?thesis
      unfolding 2 using 1 3 4 True by simp
  qed
  show ?thesis
    by (rule exI [of _ tr], rule exI [of _ r], rule conjI, rule allI, rule all, rule props)
qed

theorem failure_kinds_witness:
  "\<exists>tr. (\<forall>k. removeExifData64 (14 + k) lost_context_browser photo 4194304 1920 =
       Some (tr, Inl SurfaceError)) \<and>
     length tr = 2 \<and> getContext lost_context_browser 1 \<and> \<not> getContext lost_context_browser 2 \<and>
     continues lost_context_browser 4194304 1 (last tr)"
proof -
  from failure_kinds [of lost_context_browser photo 4194304 1920]
  obtain tr r where
    all: "\<And>k. removeExifData64 (14 + k) lost_context_browser photo 4194304 1920 = Some (tr, r)"
    and s: "r = Inl SurfaceError \<longleftrightarrow>
       (\<exists>url w h. readAsDataURL lost_context_browser photo = Reader_onload (Some url) \<and> url \<noteq> [] \<and>
          load_image lost_context_browser url = Image_onload w h) \<and>
       \<not> getContext lost_context_browser (length tr) \<and>
       (tr = [] \<or> continues lost_context_browser 4194304 (length tr - 1) (last tr))"
    by blast
  have "removeExifData64 14 lost_context_browser photo 4194304 1920 =
    Some ([\<lparr>at_width = 1920, at_height = 1920, at_quality = 8286623314361713 / 9007199254740992\<rparr>,
           \<lparr>at_width = 1920, at_height = 1920, at_quality = 3692951694443807 / 4503599627370496\<rparr>],
          Inl SurfaceError)"
    by (simp add: removeExifData64_def lost_context_browser_def fixed_browser_def photo_def
        initial_dimensions64_def Let_def compressImage64_unfold logged_def mimeType_def
        SurfaceError_def binary64_simps del: compressImage64.simps(2))
  with all [of 0] have tr: "tr = [\<lparr>at_width = 1920, at_height = 1920, at_quality = 8286623314361713 / 9007199254740992\<rparr>,
           \<lparr>at_width = 1920, at_height = 1920, at_quality = 3692951694443807 / 4503599627370496\<rparr>]"
    and r: "r = Inl SurfaceError"
    by simp_all
  from s r have "\<not> getContext lost_context_browser (length tr) \<and>
       (tr = [] \<or> continues lost_context_browser 4194304 (length tr - 1) (last tr))"
    by simp
  then have "length tr = 2 \<and> getContext lost_context_browser 1 \<and>
     \<not> getContext lost_context_browser 2 \<and> continues lost_context_browser 4194304 1 (last tr)"
    unfolding tr by (simp add: lost_context_browser_def fixed_browser_def)
  with all show ?thesis unfolding r by blast
qed

subsection \<open>The shrink step\<close>

text \<open>
  Claim C2, as the spec states it, fails: 800 is a cap on the new dimensions, not a
  floor.  A 900 \<times> 600 image with a budget of 0 bytes: the eighth attempt (canvas 7) is
  over the budget at a quality below 0.3 and at a width above 800, and the next attempt
  is made at 720 \<times> 480, at the double 0.7: the longer side has dropped from 900 to 720,
  below 800, in a single shrink step.
\<close>

theorem longer_side_drops_below_800:
  "\<exists>tr r. removeExifData64 14 (scaling_browser 900 600) photo 0 1920 = Some (tr, r) \<and>
     tr ! 7 = \<lparr>at_width = 900, at_height = 600,
       at_quality = 7926335344172079 / 36028797018963968\<rparr> \<and>
     over_budget (scaling_browser 900 600) 0 7 900 600 (7926335344172079 / 36028797018963968) \<and>
     (7926335344172079 / 36028797018963968 :: real) \<le> 0.3 \<and> (800::real) < 900 \<and>
     tr ! 8 = \<lparr>at_width = 720, at_height = 480, at_quality = binary64 0.7\<rparr> \<and>
     max (720::real) 480 < 800"
proof -
  have "over_budget (scaling_browser 900 600) 0 7 900 600 (7926335344172079 / 36028797018963968)"
    by (rule scaling_over_budget) simp
  then show ?thesis
    unfolding run_900x600 by (simp add: binary64_literals_normal)
qed

text \<open>
  Claim C2, amended.  Whenever an attempt at positive dimensions \<open>w \<times> h\<close> is over the budget
  with a quality of at most the double 0.3 and \<open>w\<close> or \<open>h\<close> above 800, the search goes on
  with the dimensions \<open>shrink64 w h = (w', h')\<close> and the quality reset to the double 0.7.  Both
  new sides are positive and at most 800; the longer one is \<open>min (0.8 L) 800\<close> up to eight
  roundings, \<open>L\<close> being the longer side before; the aspect ratio \<open>w' / h'\<close> is \<open>w / h\<close> up to two
  roundings.  The first of the later attempts is made at \<open>w' \<times> h'\<close> and the double 0.7, and
  all later attempts are made at \<open>w' \<times> h'\<close>: there is no second shrink.
\<close>

theorem shrink_step_caps_at_800:
  assumes "over_budget br maxSize n w h q" "q \<le> binary64 0.3" "800 < w \<or> 800 < h"
    and "0 < w" "0 < h"
  shows "\<exists>w' h'. shrink64 w h = (w', h') \<and>
    compressImage64 (Suc fuel) br maxSize fileName n w h q =
      map_option (logged \<lparr>at_width = w, at_height = h, at_quality = q\<rparr>)
        (compressImage64 fuel br maxSize fileName (Suc n) w' h' (binary64 0.7)) \<and>
    0 < w' \<and> 0 < h' \<and> w' \<le> 800 \<and> h' \<le> 800 \<and>
    near 8 (max w' h') (min (0.8 * max w h) 800) \<and>
    near 2 (w' / h') (w / h) \<and>
    (\<forall>tr r. compressImage64 fuel br maxSize fileName (Suc n) w' h' (binary64 0.7) = Some (tr, r) \<and>
        tr \<noteq> [] \<longrightarrow>
      hd tr = \<lparr>at_width = w', at_height = h', at_quality = binary64 0.7\<rparr> \<and>
      (\<forall>a \<in> set tr. at_width a = w' \<and> at_height a = h'))"
proof -
  define w' where "w' = fst (shrink64 w h)"
  define h' where "h' = snd (shrink64 w h)"
  have sh: "shrink64 w h = (w', h')" unfolding w'_def h'_def by simp
  from assms(2) have nq: "\<not> binary64 0.3 < q" by simp
  have "compressImage64 (Suc fuel) br maxSize fileName n w h q =
      map_option (logged \<lparr>at_width = w, at_height = h, at_quality = q\<rparr>)
        (compressImage64 (Suc fuel - 1) br maxSize fileName (n + 1) w' h' (binary64 0.7))"
    unfolding w'_def h'_def using assms(1) nq assms(3) zero_less_Suc
    by (rule compressImage64_shrink)
  then have step: "compressImage64 (Suc fuel) br maxSize fileName n w h q =
      map_option (logged \<lparr>at_width = w, at_height = h, at_quality = q\<rparr>)
        (compressImage64 fuel br maxSize fileName (Suc n) w' h' (binary64 0.7))"
    by simp
  have pos: "0 < w'" "0 < h'"
    unfolding w'_def h'_def using assms(4,5) by (rule shrink64_facts)+
  have le: "w' \<le> 800" "h' \<le> 800"
    unfolding w'_def h'_def using shrink64_le_800 [of w h] by simp_all
  have long: "near 8 (max w' h') (min (0.8 * max w h) 800)"
    unfolding w'_def h'_def using assms(4,5) by (rule shrink64_facts)
  have asp: "near 2 (w' / h') (w / h)"
    unfolding w'_def h'_def using assms(4,5) by (rule shrink64_facts)
  have later: "hd tr = \<lparr>at_width = w', at_height = h', at_quality = binary64 0.7\<rparr> \<and>
      (\<forall>a \<in> set tr. at_width a = w' \<and> at_height a = h')"
    if r: "compressImage64 fuel br maxSize fileName (Suc n) w' h' (binary64 0.7) = Some (tr, r)"
      and ne: "tr \<noteq> []" for tr r
  proof -
    from r ne have 1: "hd tr = \<lparr>at_width = w', at_height = h', at_quality = binary64 0.7\<rparr>"
      by (rule compressImage64_hd)
    have 2: "at_width a = w' \<and> at_height a = h'" if "a \<in> set tr" for a
      using compressImage64_dimensions [OF r that] le by auto
    from 1 2 show ?thesis by simp
  qed
  from sh step pos le long asp later show ?thesis by blast
qed

theorem shrink_step_caps_at_800_witness:
  "shrink64 1920 1280 = (800, 4691249611844267 / 8796093022208) \<and>
   compressImage64 7 (fixed_browser 1920 1280 5000000) 4194304 ''photo.jpg'' 7 1920 1280
       (7926335344172079 / 36028797018963968) =
     map_option (logged \<lparr>at_width = 1920, at_height = 1280,
         at_quality = 7926335344172079 / 36028797018963968\<rparr>)
       (compressImage64 6 (fixed_browser 1920 1280 5000000) 4194304 ''photo.jpg'' 8
          800 (4691249611844267 / 8796093022208) (binary64 0.7)) \<and>
   near 8 (max 800 (4691249611844267 / 8796093022208)) (min (0.8 * max 1920 1280) 800) \<and>
   near 2 (800 / (4691249611844267 / 8796093022208)) (1920 / 1280) \<and>
   (800 / (4691249611844267 / 8796093022208) :: real) < 1920 / 1280"
proof -
  have "over_budget (fixed_browser 1920 1280 5000000) 4194304 7 1920 1280
      (7926335344172079 / 36028797018963968)"
    "7926335344172079 / 36028797018963968 \<le> binary64 0.3"
    "800 < (1920::real) \<or> 800 < (1280::real)" "(0::real) < 1920" "(0::real) < 1280"
    by (simp_all add: over_budget_def fixed_browser_def binary64_literals_normal)
  from shrink_step_caps_at_800 [OF this, of 6 "''photo.jpg''"]
  obtain w' h' where sh: "shrink64 1920 1280 = (w', h')"
    and step: "compressImage64 (Suc 6) (fixed_browser 1920 1280 5000000) 4194304 ''photo.jpg'' 7
        1920 1280 (7926335344172079 / 36028797018963968) =
      map_option (logged \<lparr>at_width = 1920, at_height = 1280,
          at_quality = 7926335344172079 / 36028797018963968\<rparr>)
        (compressImage64 6 (fixed_browser 1920 1280 5000000) 4194304 ''photo.jpg'' (Suc 7)
           w' h' (binary64 0.7))"
    and long: "near 8 (max w' h') (min (0.8 * max 1920 1280) 800)"
    and asp: "near 2 (w' / h') (1920 / 1280)"
    by (elim exE conjE)
  have e: "shrink64 1920 1280 = (800, 4691249611844267 / 8796093022208)"
    by (simp add: shrink64_def Let_def binary64_simps)
  with sh have w': "w' = 800" "h' = 4691249611844267 / 8796093022208" by simp_all
  have n: "Suc 6 = 7" "Suc 7 = 8" by simp_all
  have "(800 / (4691249611844267 / 8796093022208) :: real) < 1920 / 1280" by simp
  with e step long asp show ?thesis unfolding w' n by (intro conjI)
qed

subsection \<open>The dimensions of the output\<close>

text \<open>
  Claim C3, in double arithmetic, for an image of positive dimensions \<open>w0 \<times> h0\<close> and a
  positive \<open>maxDimension\<close> that is a double (an integer below \<open>2 ^ 53\<close> times a power of two).
  The first attempt is made at the initial dimensions \<open>w1 \<times> h1\<close>: if the longer side of
  the image exceeds \<open>maxDimension\<close> their longer side is exactly \<open>maxDimension\<close>, otherwise
  they are the dimensions of the image, and in both cases they are positive with an
  aspect ratio \<open>w1 / h1\<close> that is \<open>w0 / h0\<close> up to two roundings.  The call settles, and a
  returned \<open>File\<close> is the encoding of the last attempt, whose dimensions are \<open>w1 \<times> h1\<close> or
  their shrink (longer side \<open>min (0.8 L) 800\<close> up to eight roundings): they are positive,
  at most \<open>maxDimension\<close>, and their aspect ratio is \<open>w0 / h0\<close> up to four roundings.  The
  pixel dimensions of the output are those the canvas makes of them, at most
  \<open>maxDimension\<close>, and their integer parts when \<open>maxDimension\<close> is below \<open>2 ^ 31\<close>.
\<close>

theorem dimensions_within_maxDimension_aspect_kept:
  assumes rd: "readAsDataURL br file = Reader_onload (Some url)" "url \<noteq> []"
    and ld: "load_image br url = Image_onload w0 h0" and pos: "0 < w0" "0 < h0"
    and m: "0 < maxDimension" "maxDimension = of_int mant * 2 powi ex" "mant < 2 ^ 53"
  shows "\<exists>w1 h1 tr r.
    initial_dimensions64 (real w0) (real h0) maxDimension = (w1, h1) \<and>
    (maxDimension < max (real w0) (real h0) \<longrightarrow> max w1 h1 = maxDimension) \<and>
    (max (real w0) (real h0) \<le> maxDimension \<longrightarrow> w1 = real w0 \<and> h1 = real h0) \<and>
    0 < w1 \<and> 0 < h1 \<and> near 2 (w1 / h1) (real w0 / real h0) \<and>
    (\<forall>fuel. removeExifData64 (14 + fuel) br file maxSize maxDimension = Some (tr, r)) \<and>
    (tr \<noteq> [] \<longrightarrow> at_width (hd tr) = w1 \<and> at_height (hd tr) = h1) \<and>
    (\<forall>f. r = Inr f \<longrightarrow>
       tr \<noteq> [] \<and>
       pixel_width (blob f) = canvas_width (at_width (last tr)) \<and>
       pixel_height (blob f) = canvas_height (at_height (last tr)) \<and>
       (at_width (last tr) = w1 \<and> at_height (last tr) = h1 \<or>
        (800 < w1 \<or> 800 < h1) \<and>
        (at_width (last tr), at_height (last tr)) = shrink64 w1 h1 \<and>
        near 8 (max (at_width (last tr)) (at_height (last tr))) (min (0.8 * max w1 h1) 800)) \<and>
       0 < at_width (last tr) \<and> 0 < at_height (last tr) \<and>
       max (at_width (last tr)) (at_height (last tr)) \<le> maxDimension \<and>
       near 4 (at_width (last tr) / at_height (last tr)) (real w0 / real h0) \<and>
       real (pixel_width (blob f)) \<le> maxDimension \<and>
       real (pixel_height (blob f)) \<le> maxDimension \<and>
       (maxDimension < 2 ^ 31 \<longrightarrow>
          pixel_width (blob f) = nat \<lfloor>at_width (last tr)\<rfloor> \<and>
          pixel_height (blob f) = nat \<lfloor>at_height (last tr)\<rfloor>))"
proof -
  define w1 where "w1 = fst (initial_dimensions64 (real w0) (real h0) maxDimension)"
  define h1 where "h1 = snd (initial_dimensions64 (real w0) (real h0) maxDimension)"
  have rp: "0 < real w0" "0 < real h0" using pos by simp_all
  have c: "0 < real w0 / real h0" using rp by simp
  note I = initial_dimensions64_facts [OF rp m, folded w1_def h1_def]
  have i0: "initial_dimensions64 (real w0) (real h0) maxDimension = (w1, h1)"
    unfolding w1_def h1_def by simp
  have i1: "max w1 h1 = maxDimension" if "maxDimension < max (real w0) (real h0)"
  proof -
    from that have "maxDimension < real w0 \<or> maxDimension < real h0" by (simp add: less_max_iff_disj)
    then show ?thesis by (rule I(5))
  qed
  have i2: "w1 = real w0 \<and> h1 = real h0" if "max (real w0) (real h0) \<le> maxDimension"
  proof -
    from that have "\<not> (maxDimension < real w0 \<or> maxDimension < real h0)" by (simp add: not_less)
    then have "initial_dimensions64 (real w0) (real h0) maxDimension = (real w0, real h0)"
      by (rule I(6))
    then show ?thesis unfolding w1_def h1_def by simp
  qed
  from removeExifData64_total [of br "file" maxSize maxDimension]
  obtain tr r where all: "\<And>fuel. removeExifData64 (14 + fuel) br file maxSize maxDimension = Some (tr, r)"
    by blast
  from all [of 0] have run: "compressImage64 14 br maxSize (name file) 0 w1 h1 (binary64 0.92) =
      Some (tr, r)"
    unfolding removeExifData64_decoded [OF rd ld] w1_def h1_def by simp
  have first: "at_width (hd tr) = w1 \<and> at_height (hd tr) = h1" if "tr \<noteq> []"
    using compressImage64_hd [OF run that] by simp
  have final: "tr \<noteq> [] \<and>
       pixel_width (blob f) = canvas_width (at_width (last tr)) \<and>
       pixel_height (blob f) = canvas_height (at_height (last tr)) \<and>
       (at_width (last tr) = w1 \<and> at_height (last tr) = h1 \<or>
        (800 < w1 \<or> 800 < h1) \<and>
        (at_width (last tr), at_height (last tr)) = shrink64 w1 h1 \<and>
        near 8 (max (at_width (last tr)) (at_height (last tr))) (min (0.8 * max w1 h1) 800)) \<and>
       0 < at_width (last tr) \<and> 0 < at_height (last tr) \<and>
       max (at_width (last tr)) (at_height (last tr)) \<le> maxDimension \<and>
       near 4 (at_width (last tr) / at_height (last tr)) (real w0 / real h0) \<and>
       real (pixel_width (blob f)) \<le> maxDimension \<and>
       real (pixel_height (blob f)) \<le> maxDimension \<and>
       (maxDimension < 2 ^ 31 \<longrightarrow>
          pixel_width (blob f) = nat \<lfloor>at_width (last tr)\<rfloor> \<and>
          pixel_height (blob f) = nat \<lfloor>at_height (last tr)\<rfloor>)"
    if f: "r = Inr f" for f
  proof -
    from compressImage64_result [OF run] f obtain tr0 a where
      t: "tr = tr0 @ [a]" "outcome br (name file) (0 + length tr0) a = Inr f"
      by auto
    from t(2) obtain sz where
      "f = new_File (encoded mimeType (at_width a) (at_height a) (at_quality a) sz) (name file) mimeType"
      by (auto simp add: outcome_def split: option.splits)
    then have px: "pixel_width (blob f) = canvas_width (at_width a)"
      "pixel_height (blob f) = canvas_height (at_height a)"
      by (simp_all add: new_File_def encoded_def)
    have "a \<in> set tr" unfolding t(1) by simp
    with run have alt: "(at_width a, at_height a) = (w1, h1) \<or>
      (800 < w1 \<or> 800 < h1) \<and> (at_width a, at_height a) = shrink64 w1 h1"
      by (rule compressImage64_dimensions)
    note F = final_dimensions_facts [OF I(1,2,3,4) c I(7) alt]
    from F(3) have le: "at_width a \<le> maxDimension" "at_height a \<le> maxDimension" by simp_all
    have nn: "0 \<le> at_width a" "0 \<le> at_height a" using F(1,2) by simp_all
    have pw: "real (canvas_width (at_width a)) \<le> maxDimension"
      using nn(1) le(1) by (rule canvas_le)
    have ph: "real (canvas_height (at_height a)) \<le> maxDimension"
      using nn(2) le(2) by (rule canvas_le)
    have fl: "maxDimension < 2 ^ 31 \<longrightarrow>
        canvas_width (at_width a) = nat \<lfloor>at_width a\<rfloor> \<and>
        canvas_height (at_height a) = nat \<lfloor>at_height a\<rfloor>"
    proof
      assume "maxDimension < 2 ^ 31"
      with le have "at_width a < 2 ^ 31" "at_height a < 2 ^ 31" by simp_all
      with nn show "canvas_width (at_width a) = nat \<lfloor>at_width a\<rfloor> \<and>
        canvas_height (at_height a) = nat \<lfloor>at_height a\<rfloor>"
        unfolding canvas_width_def canvas_height_def by (simp add: canvas_dimension_floor)
    qed
    have l: "last tr = a" "tr \<noteq> []" unfolding t(1) by simp_all
    from F px pw ph fl l(2) show ?thesis unfolding l(1) by simp
  qed
  from i0 i1 i2 I(1,2,7) all first final show ?thesis
    by (intro exI [of _ w1] exI [of _ h1] exI [of _ tr] exI [of _ r] conjI allI impI) simp_all
qed

lemma dimensions64_1025:
  "initial_dimensions64 1025 2000 1920 = (8655355533852671 / 8796093022208, 1920)"
  "shrink64 (8655355533852671 / 8796093022208) 1920 = (7212796278210559 / 17592186044416, 800)"
  by (simp_all add: initial_dimensions64_def shrink64_def Let_def binary64_simps)

lemma fixed_over_budget:
  "real sz > maxSize \<Longrightarrow> over_budget (fixed_browser w0 h0 sz) maxSize n w h q"
  by (simp add: over_budget_def fixed_browser_def)

lemma run_1025x2000:
  "removeExifData64 14 (fixed_browser 1025 2000 5000000) photo 4194304 1920 =
     Some (map (\<lambda>q. \<lparr>at_width = 8655355533852671 / 8796093022208, at_height = 1920, at_quality = q\<rparr>)
         [8286623314361713 / 9007199254740992, 3692951694443807 / 4503599627370496,
          6485183463413515 / 9007199254740992, 698057942242427 / 1125899906842624,
          4683743612465317 / 9007199254740992, 1891511843495609 / 4503599627370496,
          2882303761517119 / 9007199254740992, 7926335344172079 / 36028797018963968] @
       map (\<lambda>q. \<lparr>at_width = 7212796278210559 / 17592186044416, at_height = 800, at_quality = q\<rparr>)
         [3152519739159347 / 4503599627370496, 5404319552844595 / 9007199254740992, 1 / 2,
          3602879701896397 / 9007199254740992, 1351079888211149 / 4503599627370496,
          7205759403792795 / 36028797018963968],
       Inr \<lparr>name = ''photo.jpg'', type = ''image/jpeg'',
         blob = \<lparr>blob_size = 5000000, blob_type = ''image/jpeg'', pixel_width = 409,
           pixel_height = 800, encoded_quality = 7205759403792795 / 36028797018963968\<rparr>\<rparr>)"
proof -
  have "removeExifData64 14 (fixed_browser 1025 2000 5000000) photo 4194304 1920 =
      compressImage64 14 (fixed_browser 1025 2000 5000000) 4194304 ''photo.jpg'' 0
        (8655355533852671 / 8796093022208) 1920 (binary64 0.92)"
    by (simp add: removeExifData64_def fixed_browser_def photo_def dimensions64_1025)
  also have "\<dots> =
     Some (map (\<lambda>q. \<lparr>at_width = 8655355533852671 / 8796093022208, at_height = 1920, at_quality = q\<rparr>)
         [8286623314361713 / 9007199254740992, 3692951694443807 / 4503599627370496,
          6485183463413515 / 9007199254740992, 698057942242427 / 1125899906842624,
          4683743612465317 / 9007199254740992, 1891511843495609 / 4503599627370496,
          2882303761517119 / 9007199254740992, 7926335344172079 / 36028797018963968] @
       map (\<lambda>q. \<lparr>at_width = 7212796278210559 / 17592186044416, at_height = 800, at_quality = q\<rparr>)
         [3152519739159347 / 4503599627370496, 5404319552844595 / 9007199254740992, 1 / 2,
          3602879701896397 / 9007199254740992, 1351079888211149 / 4503599627370496,
          7205759403792795 / 36028797018963968],
       Inr (new_File (encoded mimeType (7212796278210559 / 17592186044416) 800
              (7205759403792795 / 36028797018963968) 5000000) ''photo.jpg'' mimeType))"
    by (simp add: compressImage64_lower_quality compressImage64_shrink compressImage64_floor
        fixed_over_budget dimensions64_1025 logged_def binary64_simps
        del: compressImage64.simps)
       (simp add: fixed_browser_def)
  finally show ?thesis
    by (simp add: new_File_def encoded_def mimeType_def canvas_simps)
qed

theorem dimensions_within_maxDimension_aspect_kept_witness:
  "initial_dimensions64 1025 2000 1920 = (8655355533852671 / 8796093022208, 1920) \<and>
   (\<exists>tr. (\<forall>fuel. removeExifData64 (14 + fuel) (fixed_browser 1025 2000 5000000) photo 4194304 1920 =
       Some (tr, Inr \<lparr>name = ''photo.jpg'', type = ''image/jpeg'',
         blob = \<lparr>blob_size = 5000000, blob_type = ''image/jpeg'', pixel_width = 409,
           pixel_height = 800, encoded_quality = 7205759403792795 / 36028797018963968\<rparr>\<rparr>)) \<and>
     at_width (last tr) = 7212796278210559 / 17592186044416 \<and> at_height (last tr) = 800 \<and>
     near 4 (7212796278210559 / 17592186044416 / 800) (1025 / 2000) \<and>
     (7212796278210559 / 17592186044416 / 800 :: real) < 1025 / 2000)"
proof -
  let ?f = "\<lparr>name = ''photo.jpg'', type = ''image/jpeg'',
         blob = \<lparr>blob_size = 5000000, blob_type = ''image/jpeg'', pixel_width = 409,
           pixel_height = 800, encoded_quality = 7205759403792795 / 36028797018963968\<rparr>\<rparr>"
  have "readAsDataURL (fixed_browser 1025 2000 5000000) photo =
      Reader_onload (Some ''data:image/jpeg;base64,'')"
    "''data:image/jpeg;base64,'' \<noteq> []"
    "load_image (fixed_browser 1025 2000 5000000) ''data:image/jpeg;base64,'' = Image_onload 1025 2000"
    "(0::nat) < 1025" "(0::nat) < 2000" "(0::real) < 1920" "(1920::real) = of_int 15 * 2 powi 7"
    "(15::int) < 2 ^ 53"
    by (simp_all add: fixed_browser_def)
  from dimensions_within_maxDimension_aspect_kept [OF this, of 4194304]
  obtain tr r where
    all: "\<And>fuel. removeExifData64 (14 + fuel) (fixed_browser 1025 2000 5000000) photo 4194304 1920 =
      Some (tr, r)"
    and fin: "\<And>f. r = Inr f \<Longrightarrow>
      near 4 (at_width (last tr) / at_height (last tr)) (real 1025 / real 2000)"
    by (elim exE conjE) blast
  from all [of 0] have r: "r = Inr ?f"
    and tr: "at_width (last tr) = 7212796278210559 / 17592186044416" "at_height (last tr) = 800"
    unfolding add_0_right run_1025x2000 by auto
  from fin [OF r] have n: "near 4 (7212796278210559 / 17592186044416 / 800) (1025 / 2000)"
    unfolding tr by simp
  have lt: "(7212796278210559 / 17592186044416 / 800 :: real) < 1025 / 2000" by simp
  have i: "initial_dimensions64 1025 2000 1920 = (8655355533852671 / 8796093022208, 1920)"
    by (rule dimensions64_1025)
  from all have a: "\<forall>fuel. removeExifData64 (14 + fuel) (fixed_browser 1025 2000 5000000) photo
      4194304 1920 = Some (tr, Inr ?f)"
    unfolding r by simp
  show ?thesis
    by (rule conjI, rule i, rule exI [of _ tr], intro conjI, rule a, rule tr(1), rule tr(2),
        rule n, rule lt)
qed

subsection \<open>The adversarial image in double arithmetic\<close>

lemma quality_chain64:
  "binary64 (8286623314361713 / 9007199254740992 - binary64 0.1) = 3692951694443807 / 4503599627370496"
  "binary64 (3692951694443807 / 4503599627370496 - binary64 0.1) = 6485183463413515 / 9007199254740992"
  "binary64 (6485183463413515 / 9007199254740992 - binary64 0.1) = 698057942242427 / 1125899906842624"
  "binary64 (698057942242427 / 1125899906842624 - binary64 0.1) = 4683743612465317 / 9007199254740992"
  "binary64 (4683743612465317 / 9007199254740992 - binary64 0.1) = 1891511843495609 / 4503599627370496"
  "binary64 (1891511843495609 / 4503599627370496 - binary64 0.1) = 2882303761517119 / 9007199254740992"
  "binary64 (2882303761517119 / 9007199254740992 - binary64 0.1) = 7926335344172079 / 36028797018963968"
  "binary64 (3152519739159347 / 4503599627370496 - binary64 0.1) = 5404319552844595 / 9007199254740992"
  "binary64 (5404319552844595 / 9007199254740992 - binary64 0.1) = 1 / 2"
  "binary64 (1 / 2 - binary64 0.1) = 3602879701896397 / 9007199254740992"
  "binary64 (3602879701896397 / 9007199254740992 - binary64 0.1) = 1351079888211149 / 4503599627370496"
  "binary64 (1351079888211149 / 4503599627370496 - binary64 0.1) = 7205759403792795 / 36028797018963968"
  by (simp_all add: binary64_simps)

text \<open>
  Claim C4 at the adversarial input, in double arithmetic: a 4000 \<times> 4000 image, the
  default budget of 4 MB and bound of 1920 pixels, every encoding larger than the
  budget.  After the shrink the qualities are the doubles 0.7, 0.6, 0.5, 0.4 and then
  0.30000000000000004, because \<open>0.4 - 0.1\<close> rounds up; this is still greater than the
  double 0.3, so the search makes a 14th attempt at 0.20000000000000004 and returns
  that encoding: 800 \<times> 800 pixels, over the budget, at a quality below 0.3 and not at
  0.3.  Fuel for 14 canvases or more gives this result.
\<close>

theorem adversarial_4000x4000_ends_below_the_floor:
  assumes "readAsDataURL br file = Reader_onload (Some url)" "url \<noteq> []"
    and "load_image br url = Image_onload 4000 4000"
    and "\<forall>n. getContext br n"
    and "\<forall>n w h q. \<exists>sz. toBlob br n mimeType w h q = Some sz \<and> 4 * 1024 * 1024 < real sz"
  shows "\<exists>tr f. removeExifData64 (14 + k) br file (4 * 1024 * 1024) 1920 = Some (tr, Inr f) \<and>
    length tr = 14 \<and>
    map at_quality (drop 8 tr) =
      [binary64 0.7, 5404319552844595 / 9007199254740992, 1 / 2,
       3602879701896397 / 9007199254740992, 1351079888211149 / 4503599627370496,
       7205759403792795 / 36028797018963968] \<and>
    binary64 0.3 < 1351079888211149 / 4503599627370496 \<and>
    pixel_width (blob f) = 800 \<and> pixel_height (blob f) = 800 \<and>
    encoded_quality (blob f) = 7205759403792795 / 36028797018963968 \<and>
    encoded_quality (blob f) < 0.3 \<and>
    4 * 1024 * 1024 < real (blob_size (blob f))"
proof -
  have ob: "over_budget br 4194304 n w h q" for n w h q
  proof -
    from assms(5) obtain sz where "toBlob br n mimeType w h q = Some sz" "4 * 1024 * 1024 < real sz"
      by blast
    with assms(4) show ?thesis by (simp add: over_budget_def)
  qed
  obtain sz where sz: "toBlob br (Suc (Suc (Suc (Suc (Suc (Suc (Suc (Suc (Suc (Suc (Suc (Suc (Suc 0))))))))))))) mimeType 800 800 (7205759403792795 / 36028797018963968) = Some sz"
    "4 * 1024 * 1024 < real sz"
    using assms(5) by blast
  have "removeExifData64 (14 + k) br file 4194304 1920 =
      compressImage64 (14 + k) br 4194304 (name file) 0 1920 1920 (binary64 0.92)"
    using assms(1,2,3) by (simp add: removeExifData64_def dimensions64_4000)
  also have "\<dots> =
      Some (map (\<lambda>q. \<lparr>at_width = 1920, at_height = 1920, at_quality = q\<rparr>)
         [8286623314361713 / 9007199254740992, 3692951694443807 / 4503599627370496,
          6485183463413515 / 9007199254740992, 698057942242427 / 1125899906842624,
          4683743612465317 / 9007199254740992, 1891511843495609 / 4503599627370496,
          2882303761517119 / 9007199254740992, 7926335344172079 / 36028797018963968] @
       map (\<lambda>q. \<lparr>at_width = 800, at_height = 800, at_quality = q\<rparr>)
         [3152519739159347 / 4503599627370496, 5404319552844595 / 9007199254740992, 1 / 2,
          3602879701896397 / 9007199254740992, 1351079888211149 / 4503599627370496,
          7205759403792795 / 36028797018963968],
       Inr (new_File (encoded mimeType 800 800 (7205759403792795 / 36028797018963968)
         (the (toBlob br (Suc (Suc (Suc (Suc (Suc (Suc (Suc (Suc (Suc (Suc (Suc (Suc (Suc 0))))))))))))) mimeType 800 800 (7205759403792795 / 36028797018963968))))
              (name file) mimeType))"
    by (simp add: compressImage64_lower_quality compressImage64_shrink compressImage64_floor ob
        dimensions64_4000 logged_def binary64_simps
        del: compressImage64.simps)
  finally have "removeExifData64 (14 + k) br file (4 * 1024 * 1024) 1920 =
      Some (map (\<lambda>q. \<lparr>at_width = 1920, at_height = 1920, at_quality = q\<rparr>)
         [8286623314361713 / 9007199254740992, 3692951694443807 / 4503599627370496,
          6485183463413515 / 9007199254740992, 698057942242427 / 1125899906842624,
          4683743612465317 / 9007199254740992, 1891511843495609 / 4503599627370496,
          2882303761517119 / 9007199254740992, 7926335344172079 / 36028797018963968] @
       map (\<lambda>q. \<lparr>at_width = 800, at_height = 800, at_quality = q\<rparr>)
         [3152519739159347 / 4503599627370496, 5404319552844595 / 9007199254740992, 1 / 2,
          3602879701896397 / 9007199254740992, 1351079888211149 / 4503599627370496,
          7205759403792795 / 36028797018963968],
       Inr (new_File (encoded mimeType 800 800 (7205759403792795 / 36028797018963968) sz)
              (name file) mimeType))"
    using sz(1) by simp
  then show ?thesis using sz(2)
    by (simp add: new_File_def encoded_def canvas_simps binary64_literals_normal)
qed

theorem adversarial_4000x4000_ends_below_the_floor_witness:
  "map_option snd
     (removeExifData64 14 (fixed_browser 4000 4000 5000000) photo (4 * 1024 * 1024) 1920) =
     Some (Inr \<lparr>name = ''photo.jpg'', type = ''image/jpeg'',
       blob = \<lparr>blob_size = 5000000, blob_type = ''image/jpeg'', pixel_width = 800,
         pixel_height = 800, encoded_quality = 7205759403792795 / 36028797018963968\<rparr>\<rparr>) \<and>
   map_option (length \<circ> fst)
     (removeExifData64 14 (fixed_browser 4000 4000 5000000) photo (4 * 1024 * 1024) 1920) =
     Some 14 \<and>
   removeExifData64 13 (fixed_browser 4000 4000 5000000) photo (4 * 1024 * 1024) 1920 = None \<and>
   (7205759403792795 / 36028797018963968 :: real) < 0.3"
proof -
  have "\<exists>tr f. removeExifData64 (14 + 0) (fixed_browser 4000 4000 5000000) photo
      (4 * 1024 * 1024) 1920 = Some (tr, Inr f) \<and>
    length tr = 14 \<and>
    map at_quality (drop 8 tr) =
      [binary64 0.7, 5404319552844595 / 9007199254740992, 1 / 2,
       3602879701896397 / 9007199254740992, 1351079888211149 / 4503599627370496,
       7205759403792795 / 36028797018963968] \<and>
    binary64 0.3 < 1351079888211149 / 4503599627370496 \<and>
    pixel_width (blob f) = 800 \<and> pixel_height (blob f) = 800 \<and>
    encoded_quality (blob f) = 7205759403792795 / 36028797018963968 \<and>
    encoded_quality (blob f) < 0.3 \<and>
    4 * 1024 * 1024 < real (blob_size (blob f))"
    by (rule adversarial_4000x4000_ends_below_the_floor
          [where url = "''data:image/jpeg;base64,''"])
       (simp_all add: fixed_browser_def)
  then obtain tr f where
    "removeExifData64 (14 + 0) (fixed_browser 4000 4000 5000000) photo (4 * 1024 * 1024) 1920 =
       Some (tr, Inr f)" "length tr = 14"
    by blast
  then have n: "map_option (length \<circ> fst)
     (removeExifData64 14 (fixed_browser 4000 4000 5000000) photo (4 * 1024 * 1024) 1920) =
     Some 14"
    by simp
  have "map_option snd
     (removeExifData64 14 (fixed_browser 4000 4000 5000000) photo (4 * 1024 * 1024) 1920) =
     Some (Inr \<lparr>name = ''photo.jpg'', type = ''image/jpeg'',
       blob = \<lparr>blob_size = 5000000, blob_type = ''image/jpeg'', pixel_width = 800,
         pixel_height = 800, encoded_quality = 7205759403792795 / 36028797018963968\<rparr>\<rparr>) \<and>
   removeExifData64 13 (fixed_browser 4000 4000 5000000) photo (4 * 1024 * 1024) 1920 = None \<and>
   (7205759403792795 / 36028797018963968 :: real) < 0.3"
  by (simp add: removeExifData64_def fixed_browser_def photo_def dimensions64_4000
     compressImage64_unfold logged_def mimeType_def new_File_def encoded_def canvas_simps
     binary64_simps del: compressImage64.simps(2))
  with n show ?thesis by simp
qed

section \<open>The qualities tried before the first shrink\<close>

text \<open>
  Claim C10.  When every encoding at the initial target dimensions at the qualities
  below exceeds \<open>maxSize\<close>, the first eight attempts are made at these dimensions and
  at the qualities 0.92, 0.82, 0.72, 0.62, 0.52, 0.42, 0.32 and 0.22, in exact
  arithmetic: the test \<open>quality > 0.3\<close> still holds at 0.32, so the last of them is made
  at 0.22, below 0.3.  Only then is the shrink branch entered (the log goes on with the
  search from the shrunk dimensions at quality 0.7) or, when both sides are at most 800,
  the encoding at quality 0.22 returned.
\<close>

theorem qualities_before_first_shrink:
  assumes "readAsDataURL br file = Reader_onload (Some url)" "url \<noteq> []"
    and "load_image br url = Image_onload w0 h0"
    and "tw = fst (initial_dimensions (real w0) (real h0) maxDimension)"
    and "th = snd (initial_dimensions (real w0) (real h0) maxDimension)"
    and "\<forall>n. getContext br n"
    and "\<forall>n. \<forall>q \<in> set [0.92, 0.82, 0.72, 0.62, 0.52, 0.42, 0.32, 0.22].
           \<exists>sz. toBlob br n mimeType tw th q = Some sz \<and> maxSize < real sz"
  shows "fst (removeExifData br file maxSize maxDimension) =
      map (\<lambda>q. \<lparr>at_width = tw, at_height = th, at_quality = q\<rparr>)
        [0.92, 0.82, 0.72, 0.62, 0.52, 0.42, 0.32, 0.22] @
      (if 800 < tw \<or> 800 < th then
         fst (compressImage br maxSize (name file) 8 (fst (shrink tw th)) (snd (shrink tw th)) 0.7)
       else []) \<and>
    (0.22 :: real) < 0.3 \<and>
    (if 800 < tw \<or> 800 < th then
       snd (removeExifData br file maxSize maxDimension) =
       snd (compressImage br maxSize (name file) 8 (fst (shrink tw th)) (snd (shrink tw th)) 0.7)
     else
       (\<exists>sz. maxSize < real sz \<and> snd (removeExifData br file maxSize maxDimension) =
          Inr (new_File (encoded mimeType tw th 0.22 sz) (name file) mimeType)))"
proof -
  have ob: "over_budget br maxSize n tw th q"
    if "q \<in> set [0.92, 0.82, 0.72, 0.62, 0.52, 0.42, 0.32, 0.22]" for n q
  proof -
    from assms(7) that obtain sz where "toBlob br n mimeType tw th q = Some sz" "maxSize < real sz"
      by blast
    with assms(6) show ?thesis by (simp add: over_budget_def)
  qed
  obtain sz where sz: "toBlob br 7 mimeType tw th 0.22 = Some sz" "maxSize < real sz"
    using assms(7) by auto
  have start: "removeExifData br file maxSize maxDimension =
      compressImage br maxSize (name file) 0 tw th 0.92"
    unfolding assms(4,5) using assms(1,2,3) by (rule removeExifData_decoded)
  have run: "compressImage br maxSize (name file) 0 tw th 0.92 =
      (map (\<lambda>q. \<lparr>at_width = tw, at_height = th, at_quality = q\<rparr>)
         [0.92, 0.82, 0.72, 0.62, 0.52, 0.42, 0.32] @
       fst (compressImage br maxSize (name file) 7 tw th 0.22),
       snd (compressImage br maxSize (name file) 7 tw th 0.22))"
    by (simp add: compressImage_lower_quality ob logged_def eval_nat_numeral)
  show ?thesis
  proof (cases "800 < tw \<or> 800 < th")
    case True
    have "compressImage br maxSize (name file) 7 tw th 0.22 =
        logged \<lparr>at_width = tw, at_height = th, at_quality = 0.22\<rparr>
         (compressImage br maxSize (name file) (Suc 7) (fst (shrink tw th)) (snd (shrink tw th)) 0.7)"
      by (rule compressImage_shrink [OF ob _ True]) simp_all
    then show ?thesis using True unfolding start run by (simp add: logged_def)
  next
    case False
    have fl: "compressImage br maxSize (name file) 7 tw th 0.22 =
        ([\<lparr>at_width = tw, at_height = th, at_quality = 0.22\<rparr>],
         Inr (new_File (encoded mimeType tw th 0.22 (the (toBlob br 7 mimeType tw th 0.22)))
           (name file) mimeType))"
      by (rule compressImage_floor [OF ob _ False]) simp_all
    from fl have "maxSize < real sz \<and> snd (removeExifData br file maxSize maxDimension) =
          Inr (new_File (encoded mimeType tw th 0.22 sz) (name file) mimeType)"
      using sz unfolding start run by simp
    then have "\<exists>sz. maxSize < real sz \<and> snd (removeExifData br file maxSize maxDimension) =
          Inr (new_File (encoded mimeType tw th 0.22 sz) (name file) mimeType)" ..
    then show ?thesis using False fl unfolding start run by simp
  qed
qed

theorem qualities_before_first_shrink_witness:
  "fst (removeExifData (scaling_browser 900 600) photo 0 1920) =
      map (\<lambda>q. \<lparr>at_width = 900, at_height = 600, at_quality = q\<rparr>)
        [0.92, 0.82, 0.72, 0.62, 0.52, 0.42, 0.32, 0.22] @
      map (\<lambda>q. \<lparr>at_width = 720, at_height = 480, at_quality = q\<rparr>) [0.7, 0.6, 0.5, 0.4, 0.3]"
proof -
  have "fst (removeExifData (scaling_browser 900 600) photo 0 1920) =
      map (\<lambda>q. \<lparr>at_width = 900, at_height = 600, at_quality = q\<rparr>)
        [0.92, 0.82, 0.72, 0.62, 0.52, 0.42, 0.32, 0.22] @
      (if 800 < (900::real) \<or> 800 < (600::real) then
         fst (compressImage (scaling_browser 900 600) 0 (name photo) 8
           (fst (shrink 900 600)) (snd (shrink 900 600)) 0.7)
       else []) \<and>
    (0.22 :: real) < 0.3 \<and>
    (if 800 < (900::real) \<or> 800 < (600::real) then
       snd (removeExifData (scaling_browser 900 600) photo 0 1920) =
       snd (compressImage (scaling_browser 900 600) 0 (name photo) 8
          (fst (shrink 900 600)) (snd (shrink 900 600)) 0.7)
     else
       (\<exists>sz. 0 < real sz \<and> snd (removeExifData (scaling_browser 900 600) photo 0 1920) =
          Inr (new_File (encoded mimeType 900 600 0.22 sz) (name photo) mimeType)))"
    by (rule qualities_before_first_shrink [where url = "''data:image/jpeg;base64,''" and ?w0.0 = 900 and ?h0.0 = 600])
       (simp_all add: scaling_browser_def initial_dimensions_def Let_def)
  then have "fst (removeExifData (scaling_browser 900 600) photo 0 1920) =
      map (\<lambda>q. \<lparr>at_width = 900, at_height = 600, at_quality = q\<rparr>)
        [0.92, 0.82, 0.72, 0.62, 0.52, 0.42, 0.32, 0.22] @
         fst (compressImage (scaling_browser 900 600) 0 (name photo) 8
           (fst (shrink 900 600)) (snd (shrink 900 600)) 0.7)"
    by simp
  also have "fst (compressImage (scaling_browser 900 600) 0 (name photo) 8
           (fst (shrink 900 600)) (snd (shrink 900 600)) 0.7) =
      map (\<lambda>q. \<lparr>at_width = 720, at_height = 480, at_quality = q\<rparr>) [0.7, 0.6, 0.5, 0.4, 0.3]"
    by (simp add: eval_simps)
  finally show ?thesis .
qed

section \<open>The batch variant\<close>

lemma first_rejection_None:
  "first_rejection ps = None \<longleftrightarrow> (\<forall>p \<in> set ps. \<exists>v. snd p = Inr v)"
proof (induction ps rule: first_rejection.induct)
  case 1
  show ?case by simp
next
  case (2 t v ps)
  then show ?case by simp
next
  case (3 t e ps)
  show ?case by (auto split: option.splits)
qed

lemma first_rejection_Some:
  "first_rejection ps = Some (t, e) \<Longrightarrow>
   (t, Inl e) \<in> set ps \<and> (\<forall>t' e'. (t', Inl e') \<in> set ps \<longrightarrow> t \<le> t')"
proof (induction ps arbitrary: t e rule: first_rejection.induct)
  case 1
  then show ?case by simp
next
  case (2 t0 v ps)
  then show ?case by auto
next
  case (3 t0 e0 ps)
  show ?case
  proof (cases "first_rejection ps")
    case None
    then have "\<forall>p \<in> set ps. \<exists>v. snd p = Inr v" by (simp add: first_rejection_None)
    then have "\<And>t' e'. (t', Inl e') \<notin> set ps" by force
    with 3(2) None show ?thesis by auto
  next
    case (Some p)
    obtain t1 e1 where p: "p = (t1, e1)" by (cases p)
    from 3(1) [of t1 e1] Some p
    have ih: "(t1, Inl e1) \<in> set ps" "\<forall>t' e'. (t', Inl e') \<in> set ps \<longrightarrow> t1 \<le> t'" by simp_all
    show ?thesis
    proof (cases "t1 < t0")
      case True
      with 3(2) Some p have "t = t1" "e = e1" by simp_all
      with ih True show ?thesis by auto
    next
      case False
      with 3(2) Some p have "t = t0" "e = e0" by simp_all
      with ih False show ?thesis by fastforce
    qed
  qed
qed

lemma fulfilled_values_all:
  "\<forall>p \<in> set ps. \<exists>v. snd p = Inr v \<Longrightarrow>
   length (fulfilled_values ps) = length ps \<and>
   (\<forall>i < length ps. snd (ps ! i) = Inr (fulfilled_values ps ! i))"
proof (induction ps rule: fulfilled_values.induct)
  case 1
  show ?case by simp
next
  case (2 t v ps)
  then have ih: "length (fulfilled_values ps) = length ps"
    "\<forall>i < length ps. snd (ps ! i) = Inr (fulfilled_values ps ! i)" by simp_all
  show ?case
  proof (intro conjI allI impI)
    show "length (fulfilled_values ((t, Inr v) # ps)) = length ((t, Inr v) # ps)"
      using ih(1) by simp
  next
    fix i assume "i < length ((t, Inr v) # ps)"
    then show "snd (((t, Inr v) # ps) ! i) = Inr (fulfilled_values ((t, Inr v) # ps) ! i)"
      using ih(2) by (cases i) simp_all
  qed
next
  case (3 t e ps)
  then show ?case by simp
qed

lemma calls_nth:
  "i < length files \<Longrightarrow>
   calls brs files maxSize maxDimension ! i =
     (settled_at (brs i), snd (removeExifData (brs i) (files ! i) maxSize maxDimension))"
  by (simp add: calls_def nth_enumerate_eq)

lemma length_calls: "length (calls brs files maxSize maxDimension) = length files"
  by (simp add: calls_def)

text \<open>
  Claim C6.  \<open>removeExifDataFromFiles\<close> runs \<open>removeExifData\<close> on every file with the same
  \<open>maxSize\<close> and \<open>maxDimension\<close>.  When every call returns a file, the batch returns these
  files in the order of the input.  When some call fails, the batch fails with the
  error of a failing call (the one that settles first) and returns no list.
\<close>

theorem batch_all_or_nothing:
  "if \<forall>i < length files. \<exists>f. snd (removeExifData (brs i) (files ! i) maxSize maxDimension) = Inr f
   then \<exists>fs. removeExifDataFromFiles brs files maxSize maxDimension = Inr fs \<and>
          length fs = length files \<and>
          (\<forall>i < length files.
             snd (removeExifData (brs i) (files ! i) maxSize maxDimension) = Inr (fs ! i))
   else \<exists>i < length files. \<exists>e.
          snd (removeExifData (brs i) (files ! i) maxSize maxDimension) = Inl e \<and>
          removeExifDataFromFiles brs files maxSize maxDimension = Inl e \<and>
          (\<forall>j < length files. \<forall>e'.
             snd (removeExifData (brs j) (files ! j) maxSize maxDimension) = Inl e' \<longrightarrow>
             settled_at (brs i) \<le> settled_at (brs j))"
proof -
  let ?ps = "calls brs files maxSize maxDimension"
  have batch: "removeExifDataFromFiles brs files maxSize maxDimension = Promise_all ?ps"
    by (simp add: removeExifDataFromFiles_def)
  show ?thesis
  proof (cases "\<forall>i < length files.
      \<exists>f. snd (removeExifData (brs i) (files ! i) maxSize maxDimension) = Inr f")
    case True
    have all: "\<forall>p \<in> set ?ps. \<exists>v. snd p = Inr v"
    proof
      fix p assume "p \<in> set ?ps"
      then obtain i where i: "i < length files" "p = ?ps ! i"
        by (auto simp add: in_set_conv_nth length_calls)
      with True show "\<exists>v. snd p = Inr v" by (simp add: calls_nth)
    qed
    then have "first_rejection ?ps = None" by (simp add: first_rejection_None)
    then have r: "removeExifDataFromFiles brs files maxSize maxDimension =
        Inr (fulfilled_values ?ps)"
      by (simp add: batch Promise_all_def)
    from fulfilled_values_all [OF all]
    have "length (fulfilled_values ?ps) = length files"
      "\<forall>i < length files. snd (?ps ! i) = Inr (fulfilled_values ?ps ! i)"
      by (simp_all add: length_calls)
    then have "length (fulfilled_values ?ps) = length files \<and>
      (\<forall>i < length files. snd (removeExifData (brs i) (files ! i) maxSize maxDimension) =
         Inr (fulfilled_values ?ps ! i))"
      by (simp add: calls_nth)
    with r True show ?thesis by auto
  next
    case False
    then obtain k where k: "k < length files"
      "\<forall>f. snd (removeExifData (brs k) (files ! k) maxSize maxDimension) \<noteq> Inr f"
      by auto
    have "?ps ! k \<in> set ?ps" using k(1) by (simp add: length_calls)
    moreover have "\<not> (\<exists>v. snd (?ps ! k) = Inr v)" using k by (simp add: calls_nth)
    ultimately have "first_rejection ?ps \<noteq> None" unfolding first_rejection_None by blast
    then obtain t e where te: "first_rejection ?ps = Some (t, e)" by (cases "first_rejection ?ps") auto
    then have r: "removeExifDataFromFiles brs files maxSize maxDimension = Inl e"
      by (simp add: batch Promise_all_def)
    from first_rejection_Some [OF te]
    have mem: "(t, Inl e) \<in> set ?ps" and least: "\<forall>t' e'. (t', Inl e') \<in> set ?ps \<longrightarrow> t \<le> t'"
      by simp_all
    from mem obtain i where i: "i < length files" "?ps ! i = (t, Inl e)"
      by (auto simp add: in_set_conv_nth length_calls)
    then have it: "settled_at (brs i) = t"
      "snd (removeExifData (brs i) (files ! i) maxSize maxDimension) = Inl e"
      by (simp_all add: calls_nth)
    have "settled_at (brs i) \<le> settled_at (brs j)"
      if "j < length files" "snd (removeExifData (brs j) (files ! j) maxSize maxDimension) = Inl e'"
      for j e'
    proof -
      from that have "?ps ! j = (settled_at (brs j), Inl e')" by (simp add: calls_nth)
      moreover have "?ps ! j \<in> set ?ps" using that(1) by (simp add: length_calls)
      ultimately have "(settled_at (brs j), Inl e') \<in> set ?ps" by simp
      with least it(1) show ?thesis by blast
    qed
    with i(1) it(2) r False show ?thesis by auto
  qed
qed

theorem batch_all_or_nothing_witness:
  "removeExifDataFromFiles good_batch [photo, photo] 500000 1920 =
     Inr [\<lparr>name = ''photo.jpg'', type = ''image/jpeg'',
            blob = \<lparr>blob_size = 51200, blob_type = ''image/jpeg'', pixel_width = 500,
              pixel_height = 500, encoded_quality = 0.92\<rparr>\<rparr>,
          \<lparr>name = ''photo.jpg'', type = ''image/jpeg'',
            blob = \<lparr>blob_size = 420000, blob_type = ''image/jpeg'', pixel_width = 1000,
              pixel_height = 1000, encoded_quality = 0.42\<rparr>\<rparr>] \<and>
   removeExifDataFromFiles bad_batch [photo, photo, photo] 500000 1920 =
     Inl (Error ''Failed to read file'')"
proof -
  let ?f0 = "\<lparr>name = ''photo.jpg'', type = ''image/jpeg'',
            blob = \<lparr>blob_size = 51200, blob_type = ''image/jpeg'', pixel_width = 500,
              pixel_height = 500, encoded_quality = 0.92\<rparr>\<rparr>"
  let ?f1 = "\<lparr>name = ''photo.jpg'', type = ''image/jpeg'',
            blob = \<lparr>blob_size = 420000, blob_type = ''image/jpeg'', pixel_width = 1000,
              pixel_height = 1000, encoded_quality = 0.42\<rparr>\<rparr>"
  have g0: "snd (removeExifData (good_batch 0) photo 500000 1920) = Inr ?f0"
    by (simp add: good_batch_def eval_simps)
  have g1: "snd (removeExifData (good_batch 1) photo 500000 1920) = Inr ?f1"
    by (simp add: good_batch_def eval_simps)
  have all: "\<forall>i < length [photo, photo].
      \<exists>f. snd (removeExifData (good_batch i) ([photo, photo] ! i) 500000 1920) = Inr f"
    using g0 g1 by (simp add: less_Suc_eq)
  have "\<exists>fs. removeExifDataFromFiles good_batch [photo, photo] 500000 1920 = Inr fs \<and>
          length fs = length [photo, photo] \<and>
          (\<forall>i < length [photo, photo].
             snd (removeExifData (good_batch i) ([photo, photo] ! i) 500000 1920) = Inr (fs ! i))"
    using all batch_all_or_nothing [of "[photo, photo]" good_batch 500000 1920]
    by (simp only: if_True)
  then obtain fs where fs: "removeExifDataFromFiles good_batch [photo, photo] 500000 1920 = Inr fs"
    "length fs = length [photo, photo]"
    "\<forall>i < length [photo, photo].
       snd (removeExifData (good_batch i) ([photo, photo] ! i) 500000 1920) = Inr (fs ! i)"
    by blast
  from fs(3) g0 g1 have "fs ! 0 = ?f0" "fs ! 1 = ?f1" by (simp_all add: less_Suc_eq)
  with fs(2) have "fs = [?f0, ?f1]"
    by (cases fs; cases "tl fs"; cases "tl (tl fs)") auto
  with fs(1) have good: "removeExifDataFromFiles good_batch [photo, photo] 500000 1920 =
      Inr [?f0, ?f1]" by simp
  have b0: "snd (removeExifData (bad_batch 0) photo 500000 1920) = Inr ?f0"
    by (simp add: bad_batch_def eval_simps)
  have b1: "snd (removeExifData (bad_batch 1) photo 500000 1920) = Inl (Error ''Failed to load image'')"
    by (simp add: bad_batch_def corrupt_browser_def eval_simps)
  have b2: "snd (removeExifData (bad_batch 2) photo 500000 1920) = Inl (Error ''Failed to read file'')"
    by (simp add: bad_batch_def unreadable_browser_def eval_simps)
  have t: "settled_at (bad_batch 1) = 5" "settled_at (bad_batch 2) = 3"
    by (simp_all add: bad_batch_def corrupt_browser_def unreadable_browser_def)
  have not_all: "\<not> (\<forall>i < length [photo, photo, photo].
      \<exists>f. snd (removeExifData (bad_batch i) ([photo, photo, photo] ! i) 500000 1920) = Inr f)"
    using b1 by (auto intro!: exI [of _ 1])
  have "\<exists>i < length [photo, photo, photo]. \<exists>e.
          snd (removeExifData (bad_batch i) ([photo, photo, photo] ! i) 500000 1920) = Inl e \<and>
          removeExifDataFromFiles bad_batch [photo, photo, photo] 500000 1920 = Inl e \<and>
          (\<forall>j < length [photo, photo, photo]. \<forall>e'.
             snd (removeExifData (bad_batch j) ([photo, photo, photo] ! j) 500000 1920) = Inl e' \<longrightarrow>
             settled_at (bad_batch i) \<le> settled_at (bad_batch j))"
    using not_all batch_all_or_nothing [of "[photo, photo, photo]" bad_batch 500000 1920]
    by (simp only: if_False)
  then obtain i e where ie: "i < length [photo, photo, photo]"
    "snd (removeExifData (bad_batch i) ([photo, photo, photo] ! i) 500000 1920) = Inl e"
    "removeExifDataFromFiles bad_batch [photo, photo, photo] 500000 1920 = Inl e"
    "\<forall>j < length [photo, photo, photo]. \<forall>e'.
       snd (removeExifData (bad_batch j) ([photo, photo, photo] ! j) 500000 1920) = Inl e' \<longrightarrow>
       settled_at (bad_batch i) \<le> settled_at (bad_batch j)"
    by blast
  from ie(1) have "i = 0 \<or> i = 1 \<or> i = 2" by (auto simp add: less_Suc_eq)
  moreover have "i \<noteq> 0"
  proof
    assume "i = 0"
    with ie(2) b0 show False by simp
  qed
  moreover have "i \<noteq> 1"
  proof
    assume "i = 1"
    moreover have "(2::nat) < length [photo, photo, photo]" by simp
    moreover have "[photo, photo, photo] ! 2 = photo" by (simp add: eval_nat_numeral)
    ultimately have "settled_at (bad_batch 1) \<le> settled_at (bad_batch 2)"
      using ie(4) b2 by metis
    with t show False by simp
  qed
  ultimately have "i = 2" by simp
  moreover have "[photo, photo, photo] ! 2 = photo" by (simp add: eval_nat_numeral)
  ultimately have "e = Error ''Failed to read file''" using ie(2) b2 by simp
  with ie(3) good show ?thesis by simp
qed

section \<open>The media type of the legacy variant\<close>

text \<open>
  Claim C9 at a GIF input: the legacy \<open>removeExifData\<close> declares the media type
  \<open>image/gif\<close>, taken from the extension of the name, on a blob that \<open>toBlob\<close> was asked
  to encode as \<open>image/jpeg\<close>, because the encoding type only distinguishes
  \<open>image/png\<close>.
\<close>

lemmas legacy_simps = removeExifData_legacy_def fixed_browser_def animation_def
  encoding_mimeType_def declared_mimeType_def fileExtension_def pop_def toLowerCase_def
  lower_char_def startsWith_def new_File_def encoded_def canvas_simps

theorem legacy_gif_declared_but_encoded_as_jpeg:
  "removeExifData_legacy (fixed_browser 320 240 20000) animation 0.92 =
     Inr \<lparr>name = ''anim.gif'', type = ''image/gif'',
          blob = \<lparr>blob_size = 20000, blob_type = ''image/jpeg'',
                  pixel_width = 320, pixel_height = 240, encoded_quality = 0.92\<rparr>\<rparr>"
  by (simp add: legacy_simps)

end
